theory Spec2Isabelle
  imports Complex_Main "HOL-Library.Multiset"
begin

section \<open>JavaScript values\<close>

text \<open>
  The bid interceptor of \<^verbatim>\<open>modules/debugging/bidInterceptor.js\<close> works on untyped
  JavaScript values: rule definitions, bids and bid requests are plain objects that may
  hold functions and regular expressions.

  \<^item> A number is a rational (\<open>3.5764\<close> is the default cpm); NaN and the infinities are
    not represented.
  \<^item> An object is the list of its own enumerable properties in insertion order, with
    distinct keys. The reordering of integer-like keys of plain objects and inherited
    (prototype) properties are not represented.
  \<^item> A function value is an index into a table of the environment that says what a
    call returns or throws; a regular expression is an index into a table that says
    whether \<^verbatim>\<open>exec\<close> finds a match. Functions are pure.
\<close>

datatype jsval =
    Undefined
  | Null
  | Bool bool
  | Num rat
  | Str string
  | Arr "jsval list"
  | Obj "(string \<times> jsval) list"
  | Fn nat
  | RegExp nat

type_synonym props = "(string \<times> jsval) list"

text \<open>A thrown exception: a TypeError of the language, or a value thrown by user code.\<close>

datatype exn = TypeError | Thrown jsval

text \<open>
  The collaborators the interceptor does not define: user functions, regular
  expressions, and the registry \<^verbatim>\<open>responseResolvers\<close> of \<^verbatim>\<open>./responses.js\<close>
  (looked up with the value of \<^verbatim>\<open>response.mediaType\<close>; a resolver receives the bid and
  the response and may change the response in place, so it returns the new properties).
\<close>

record env =
  call :: "nat \<Rightarrow> jsval list \<Rightarrow> exn + jsval"
  rx_exec :: "nat \<Rightarrow> jsval \<Rightarrow> bool"
  resolvers :: "jsval \<Rightarrow> (jsval \<Rightarrow> props \<Rightarrow> exn + props) option"

text \<open>\<^verbatim>\<open>!!v\<close>\<close>

fun truthy :: "jsval \<Rightarrow> bool" where
  "truthy Undefined = False"
| "truthy Null = False"
| "truthy (Bool b) = b"
| "truthy (Num n) = (n \<noteq> 0)"
| "truthy (Str s) = (s \<noteq> [])"
| "truthy _ = True"

text \<open>\<^verbatim>\<open>v == null\<close>\<close>

fun nullish :: "jsval \<Rightarrow> bool" where
  "nullish Undefined = True"
| "nullish Null = True"
| "nullish _ = False"

text \<open>\<^verbatim>\<open>typeof v === 'function'\<close> and \<^verbatim>\<open>typeof v === 'object'\<close> (which holds of null).\<close>

fun is_function :: "jsval \<Rightarrow> bool" where
  "is_function (Fn f) = True"
| "is_function _ = False"

fun typeof_object :: "jsval \<Rightarrow> bool" where
  "typeof_object Null = True"
| "typeof_object (Arr xs) = True"
| "typeof_object (Obj kvs) = True"
| "typeof_object (RegExp r) = True"
| "typeof_object _ = False"

fun is_array :: "jsval \<Rightarrow> bool" where
  "is_array (Arr xs) = True"
| "is_array _ = False"

text \<open>Decimal index keys of arrays and strings.\<close>

definition digit_char :: "nat \<Rightarrow> char" where
  "digit_char d = ''0123456789'' ! d"

function show_nat :: "nat \<Rightarrow> string" where
  "show_nat n =
     (if n < 10 then [digit_char n] else show_nat (n div 10) @ [digit_char (n mod 10)])"
  by pat_completeness auto
termination
  by (relation "measure id") auto

declare show_nat.simps [simp del]

text \<open>
  The own enumerable properties of a value that is neither null nor undefined, as
  \<^verbatim>\<open>Object.entries\<close> and \<^verbatim>\<open>Object.keys\<close> list them.
\<close>

fun own_entries :: "jsval \<Rightarrow> props" where
  "own_entries (Obj kvs) = kvs"
| "own_entries (Arr xs) = zip (map show_nat [0..<length xs]) xs"
| "own_entries (Str s) = zip (map show_nat [0..<length s]) (map (\<lambda>c. Str [c]) s)"
| "own_entries _ = []"

definition object_keys :: "jsval \<Rightarrow> exn + string list" where
  "object_keys v = (if nullish v then Inl TypeError else Inr (map fst (own_entries v)))"

text \<open>\<^verbatim>\<open>v[k]\<close>: a TypeError on null and undefined, undefined for a missing property.\<close>

fun has_length :: "jsval \<Rightarrow> nat option" where
  "has_length (Arr xs) = Some (length xs)"
| "has_length (Str s) = Some (length s)"
| "has_length _ = None"

definition own_prop :: "jsval \<Rightarrow> string \<Rightarrow> jsval" where
  "own_prop v k =
     (case (if k = ''length'' then has_length v else None) of
        Some n \<Rightarrow> Num (of_nat n)
      | None \<Rightarrow> (case map_of (own_entries v) k of Some x \<Rightarrow> x | None \<Rightarrow> Undefined))"

definition get_prop :: "jsval \<Rightarrow> string \<Rightarrow> exn + jsval" where
  "get_prop v k = (if nullish v then Inl TypeError else Inr (own_prop v k))"

text \<open>\<^verbatim>\<open>v?.k\<close> and \<^verbatim>\<open>a ?? b\<close>\<close>

definition opt_prop :: "jsval \<Rightarrow> string \<Rightarrow> jsval" where
  "opt_prop v k = (if nullish v then Undefined else own_prop v k)"

definition nullish_or :: "jsval \<Rightarrow> jsval \<Rightarrow> jsval" where
  "nullish_or a b = (if nullish a then b else a)"

text \<open>\<^verbatim>\<open>o[k] = v\<close> on the properties of an object: in place, or appended.\<close>

fun obj_set :: "props \<Rightarrow> string \<Rightarrow> jsval \<Rightarrow> props" where
  "obj_set [] k v = [(k, v)]"
| "obj_set ((k', v') # kvs) k v =
     (if k' = k then (k, v) # kvs else (k', v') # obj_set kvs k v)"

section \<open>The logger\<close>

text \<open>
  The messages the interceptor writes, by channel and text; the rule number is the
  only varying part of the three definition errors.
\<close>

datatype log_entry =
    LogError_when nat
  | LogError_then nat
  | LogError_paapi nat
  | LogMessage_intercepted nat jsval jsval jsval jsval

section \<open>matcher\<close>

text \<open>
  The inner function \<^verbatim>\<open>matches(candidate, {ref, args})\<close> maps every entry
  \<open>(key, val)\<close> of \<open>ref\<close> to a boolean (so every entry is evaluated, and a throw in
  any of them propagates) and then takes the conjunction. \<open>matches_val\<close> is the body
  of the mapped function after \<^verbatim>\<open>cVal = candidate[key]\<close>; its branch for
  \<^verbatim>\<open>typeof val === 'object'\<close> is the recursive call, written out on the entries of
  \<open>val\<close>. The entries of an array are its elements under their decimal indices,
  produced here with a running index.
\<close>

fun matches_val :: "env \<Rightarrow> jsval list \<Rightarrow> jsval \<Rightarrow> jsval \<Rightarrow> exn + bool"
and matches_entries :: "env \<Rightarrow> jsval list \<Rightarrow> jsval \<Rightarrow> props \<Rightarrow> exn + bool list"
and matches_items :: "env \<Rightarrow> jsval list \<Rightarrow> jsval \<Rightarrow> nat \<Rightarrow> jsval list \<Rightarrow> exn + bool list" where
  "matches_val E args cVal val =
     (case val of
        RegExp r \<Rightarrow> Inr (rx_exec E r cVal)
      | Fn f \<Rightarrow> (case call E f (cVal # args) of
                  Inl e \<Rightarrow> Inl e | Inr v \<Rightarrow> Inr (truthy v))
      | Obj kvs \<Rightarrow> (case matches_entries E args cVal kvs of
                     Inl e \<Rightarrow> Inl e | Inr bs \<Rightarrow> Inr (list_all id bs))
      | Arr xs \<Rightarrow> (case matches_items E args cVal 0 xs of
                    Inl e \<Rightarrow> Inl e | Inr bs \<Rightarrow> Inr (list_all id bs))
      | Null \<Rightarrow> Inl TypeError
      | _ \<Rightarrow> Inr (cVal = val))"
| "matches_entries E args candidate [] = Inr []"
| "matches_entries E args candidate ((key, val) # kvs) =
     (case get_prop candidate key of
        Inl e \<Rightarrow> Inl e
      | Inr cVal \<Rightarrow>
          (case matches_val E args cVal val of
             Inl e \<Rightarrow> Inl e
           | Inr b \<Rightarrow> (case matches_entries E args candidate kvs of
                        Inl e \<Rightarrow> Inl e | Inr bs \<Rightarrow> Inr (b # bs))))"
| "matches_items E args candidate i [] = Inr []"
| "matches_items E args candidate i (val # xs) =
     (case get_prop candidate (show_nat i) of
        Inl e \<Rightarrow> Inl e
      | Inr cVal \<Rightarrow>
          (case matches_val E args cVal val of
             Inl e \<Rightarrow> Inl e
           | Inr b \<Rightarrow> (case matches_items E args candidate (Suc i) xs of
                        Inl e \<Rightarrow> Inl e | Inr bs \<Rightarrow> Inr (b # bs))))"

text \<open>
  \<^verbatim>\<open>matches\<close> itself: \<^verbatim>\<open>Object.entries(ref)\<close> throws a TypeError on null and
  undefined, and is empty for a regular expression.
\<close>

definition matches :: "env \<Rightarrow> jsval list \<Rightarrow> jsval \<Rightarrow> jsval \<Rightarrow> exn + bool" where
  "matches E args candidate ref =
     (if nullish ref then Inl TypeError
      else case ref of
        Arr xs \<Rightarrow> (case matches_items E args candidate 0 xs of
                    Inl e \<Rightarrow> Inl e | Inr bs \<Rightarrow> Inr (list_all id bs))
      | _ \<Rightarrow> (case matches_entries E args candidate (own_entries ref) of
                Inl e \<Rightarrow> Inl e | Inr bs \<Rightarrow> Inr (list_all id bs)))"

text \<open>
  A compiled predicate takes the candidate and the remaining arguments and returns a
  value (the caller tests its truthiness) or throws. \<^verbatim>\<open>matcher\<close> also returns what
  it logged.
\<close>

type_synonym predicate = "jsval \<Rightarrow> jsval list \<Rightarrow> exn + jsval"

definition matcher :: "env \<Rightarrow> jsval \<Rightarrow> nat \<Rightarrow> log_entry list \<times> predicate" where
  "matcher E matchDef ruleNo =
     (case matchDef of
        Fn f \<Rightarrow> ([], \<lambda>candidate args. call E f (candidate # args))
      | _ \<Rightarrow>
         if \<not> typeof_object matchDef
         then ([LogError_when ruleNo], \<lambda>candidate args. Inr (Bool False))
         else ([], \<lambda>candidate args.
                 (case matches E args candidate matchDef of
                    Inl e \<Rightarrow> Inl e | Inr b \<Rightarrow> Inr (Bool b))))"

section \<open>responseDefaults\<close>

text \<open>
  Modelled from the spec: the constants \<^verbatim>\<open>BANNER\<close> and \<^verbatim>\<open>VIDEO\<close> of
  \<^verbatim>\<open>src/mediaTypes.js\<close>, which is not among the sources; they name the banner and the
  video media type, the keys \<^verbatim>\<open>responseDefaults\<close> reads under \<^verbatim>\<open>bid.mediaTypes\<close>.
\<close>

definition BANNER :: string where
  "BANNER = ''banner''"

definition VIDEO :: string where
  "VIDEO = ''video''"

text \<open>\<^verbatim>\<open>Object.keys(v)[0]\<close> for a \<open>v\<close> that is neither null nor undefined.\<close>

definition first_key :: "jsval \<Rightarrow> jsval" where
  "first_key v = (case own_entries v of [] \<Rightarrow> Undefined | (k, x) # kvs \<Rightarrow> Str k)"

text \<open>
  The size \<^verbatim>\<open>responseDefaults\<close> resolves for a response media type: it stays
  undefined for every type other than banner and video.
\<close>

definition default_size :: "jsval \<Rightarrow> jsval \<Rightarrow> jsval" where
  "default_size bid mediaType =
     (if mediaType = Str BANNER
      then nullish_or
             (opt_prop (opt_prop (opt_prop (own_prop bid ''mediaTypes'') ''banner'') ''sizes'') ''0'')
             (Arr [Num 300, Num 250])
      else if mediaType = Str VIDEO
      then nullish_or
             (opt_prop (opt_prop (opt_prop (own_prop bid ''mediaTypes'') ''video'') ''playerSize'') ''0'')
             (Arr [Num 600, Num 500])
      else Undefined)"

text \<open>
  The media type given to the response of a bid with no \<^verbatim>\<open>mediaType\<close>:
  \<^verbatim>\<open>Object.keys(bid.mediaTypes ?? {})[0] ?? BANNER\<close>.
\<close>

definition inferred_mediaType :: "jsval \<Rightarrow> jsval" where
  "inferred_mediaType bid =
     nullish_or (first_key (nullish_or (own_prop bid ''mediaTypes'') (Obj []))) (Str BANNER)"

definition responseDefaults :: "jsval \<Rightarrow> exn + props" where
  "responseDefaults bid =
     (case get_prop bid ''bidId'' of
        Inl e \<Rightarrow> Inl e
      | Inr bidId \<Rightarrow>
          (let response =
                 [(''requestId'', bidId),
                  (''cpm'', Num 3.5764),
                  (''currency'', Str ''EUR''),
                  (''ttl'', Num 360),
                  (''creativeId'', Str ''mock-creative-id''),
                  (''netRevenue'', Bool False),
                  (''meta'', Obj [])];
               response =
                 (if \<not> truthy (own_prop bid ''mediaType'')
                  then obj_set response ''mediaType'' (inferred_mediaType bid)
                  else response);
               size = default_size bid (own_prop (Obj response) ''mediaType'')
           in Inr (if is_array size
                   then obj_set (obj_set response ''width'' (own_prop size ''0''))
                          ''height'' (own_prop size ''1'')
                   else response)))"

section \<open>replacer\<close>

text \<open>
  The template walker \<^verbatim>\<open>replFn({args, ref})\<close> of an object definition.
  \<open>replFn_val\<close> is the body of its \<^verbatim>\<open>forEach\<close>: the value stored under a key of
  the result. The result has the keys of \<open>ref\<close> in their order; for an array it is an
  array of the same length.
\<close>

fun replFn_val :: "env \<Rightarrow> jsval list \<Rightarrow> jsval \<Rightarrow> exn + jsval"
and replFn_entries :: "env \<Rightarrow> jsval list \<Rightarrow> props \<Rightarrow> exn + props"
and replFn_items :: "env \<Rightarrow> jsval list \<Rightarrow> jsval list \<Rightarrow> exn + jsval list" where
  "replFn_val E args val =
     (case val of
        Fn f \<Rightarrow> call E f args
      | Obj kvs \<Rightarrow> (case replFn_entries E args kvs of
                     Inl e \<Rightarrow> Inl e | Inr r \<Rightarrow> Inr (Obj r))
      | Arr xs \<Rightarrow> (case replFn_items E args xs of
                    Inl e \<Rightarrow> Inl e | Inr r \<Rightarrow> Inr (Arr r))
      | RegExp r \<Rightarrow> Inr (Obj [])
      | _ \<Rightarrow> Inr val)"
| "replFn_entries E args [] = Inr []"
| "replFn_entries E args ((key, val) # kvs) =
     (case replFn_val E args val of
        Inl e \<Rightarrow> Inl e
      | Inr r \<Rightarrow> (case replFn_entries E args kvs of
                   Inl e \<Rightarrow> Inl e | Inr rs \<Rightarrow> Inr ((key, r) # rs)))"
| "replFn_items E args [] = Inr []"
| "replFn_items E args (val # xs) =
     (case replFn_val E args val of
        Inl e \<Rightarrow> Inl e
      | Inr r \<Rightarrow> (case replFn_items E args xs of
                   Inl e \<Rightarrow> Inl e | Inr rs \<Rightarrow> Inr (r # rs)))"

definition replFn :: "env \<Rightarrow> jsval list \<Rightarrow> jsval \<Rightarrow> exn + jsval" where
  "replFn E args ref =
     (case ref of
        Arr xs \<Rightarrow> (case replFn_items E args xs of
                    Inl e \<Rightarrow> Inl e | Inr r \<Rightarrow> Inr (Arr r))
      | _ \<Rightarrow> (case replFn_entries E args (own_entries ref) of
                Inl e \<Rightarrow> Inl e | Inr r \<Rightarrow> Inr (Obj r)))"

text \<open>
  Modelled from the spec: \<^verbatim>\<open>mergeDeep\<close> of \<^verbatim>\<open>src/utils.js\<close>, which is not among the
  sources. The spec: the override is deep-merged on top of the defaults; an object in
  the base and an object in the override merge field by field; in any other conflict
  the override replaces the base wholesale. \<^verbatim>\<open>replacer\<close> ignores what the call
  returns and keeps the target it passed, so a source that is not an object leaves the
  target as it is.
\<close>

fun merge_props :: "props \<Rightarrow> props \<Rightarrow> props" where
  "merge_props base [] = base"
| "merge_props base ((k, v) # ov) =
     merge_props
       (obj_set base k
          (case v of
             Obj src \<Rightarrow> (case map_of base k of
                            Some (Obj b) \<Rightarrow> Obj (merge_props b src)
                          | _ \<Rightarrow> v)
           | _ \<Rightarrow> v))
       ov"

definition mergeDeep :: "props \<Rightarrow> jsval \<Rightarrow> props" where
  "mergeDeep target source = (case source of Obj ov \<Rightarrow> merge_props target ov | _ \<Rightarrow> target)"

text \<open>
  The function \<^verbatim>\<open>replacer\<close> returns for a definition that is not null:
  \<^verbatim>\<open>(bid, ...args) => {...}\<close>, given the \<^verbatim>\<open>replFn\<close> chosen for the definition.
\<close>

type_synonym generator = "jsval \<Rightarrow> jsval list \<Rightarrow> exn + jsval"

definition respond :: "env \<Rightarrow> (jsval list \<Rightarrow> exn + jsval) \<Rightarrow> generator" where
  "respond E replFn' bid args =
     (case responseDefaults bid of
        Inl e \<Rightarrow> Inl e
      | Inr response \<Rightarrow>
          (case replFn' (bid # args) of
             Inl e \<Rightarrow> Inl e
           | Inr override \<Rightarrow>
               (let response = mergeDeep response override in
                (case (case resolvers E (own_prop (Obj response) ''mediaType'') of
                         None \<Rightarrow> Inr response
                       | Some resolver \<Rightarrow> resolver bid response) of
                   Inl e \<Rightarrow> Inl e
                 | Inr response \<Rightarrow> Inr (Obj (obj_set response ''isDebug'' (Bool True)))))))"

text \<open>
  The variable \<^verbatim>\<open>replFn\<close> after the chain of tests on a definition that is neither
  null nor falsy: the user's function, the empty template for an invalid definition,
  or the walker.
\<close>

definition replFn_of :: "env \<Rightarrow> jsval \<Rightarrow> jsval list \<Rightarrow> exn + jsval" where
  "replFn_of E replDef =
     (case replDef of
        Fn f \<Rightarrow> (\<lambda>args. call E f args)
      | _ \<Rightarrow> if \<not> typeof_object replDef then (\<lambda>args. Inr (Obj []))
             else (\<lambda>args. replFn E args replDef))"

definition replacer :: "env \<Rightarrow> jsval \<Rightarrow> nat \<Rightarrow> log_entry list \<times> generator" where
  "replacer E replDef ruleNo =
     (if replDef = Null then ([], \<lambda>bid args. Inr Null)
      else
        (let replDef = (if truthy replDef then replDef else Obj [])
         in (if \<not> is_function replDef \<and> \<not> typeof_object replDef
             then [LogError_then ruleNo] else [],
             respond E (replFn_of E replDef))))"

section \<open>paapiReplacer\<close>

text \<open>
  \<^verbatim>\<open>wrap(configs = [])\<close>: the default applies to undefined only; \<^verbatim>\<open>configs.map\<close>
  is a TypeError on anything that is not an array, and \<^verbatim>\<open>Object.keys(config)\<close> on a
  null or undefined entry.
\<close>

definition wrap_config :: "jsval \<Rightarrow> exn + jsval" where
  "wrap_config config =
     (case object_keys config of
        Inl e \<Rightarrow> Inl e
      | Inr ks \<Rightarrow>
          Inr (if list_ex (\<lambda>k. k \<notin> set [''config'', ''igb'']) ks
               then Obj [(''config'', config)]
               else config))"

fun wrap_all :: "jsval list \<Rightarrow> exn + jsval list" where
  "wrap_all [] = Inr []"
| "wrap_all (config # configs) =
     (case wrap_config config of
        Inl e \<Rightarrow> Inl e
      | Inr c \<Rightarrow> (case wrap_all configs of
                   Inl e \<Rightarrow> Inl e | Inr cs \<Rightarrow> Inr (c # cs)))"

definition wrap :: "jsval \<Rightarrow> exn + jsval list" where
  "wrap configs =
     (case configs of
        Undefined \<Rightarrow> Inr []
      | Arr xs \<Rightarrow> wrap_all xs
      | _ \<Rightarrow> Inl TypeError)"

text \<open>
  The generator of auxiliary configs takes the call arguments. For a definition that
  is neither an array nor a function \<^verbatim>\<open>paapiReplacer\<close> logs and returns nothing
  (undefined): \<open>None\<close>.
\<close>

type_synonym paapi_generator = "jsval list \<Rightarrow> exn + jsval list"

definition paapiReplacer :: "env \<Rightarrow> jsval \<Rightarrow> nat \<Rightarrow> log_entry list \<times> paapi_generator option" where
  "paapiReplacer E paapiDef ruleNo =
     (case paapiDef of
        Arr xs \<Rightarrow> ([], Some (\<lambda>args. wrap paapiDef))
      | Fn f \<Rightarrow> ([], Some (\<lambda>args. case call E f args of
                                     Inl e \<Rightarrow> Inl e | Inr configs \<Rightarrow> wrap configs))
      | _ \<Rightarrow> ([LogError_paapi ruleNo], None))"

section \<open>Rules\<close>

text \<open>
  A compiled rule, as \<^verbatim>\<open>rule(ruleDef, ruleNo)\<close> builds it. The field \<open>paapi\<close> is
  \<open>None\<close> when \<^verbatim>\<open>paapiReplacer\<close> returned undefined.
\<close>

record rule =
  no :: nat
  match_fn :: predicate
  replace :: generator
  options :: props
  paapi :: "paapi_generator option"

text \<open>
  \<^verbatim>\<open>Object.assign({}, DEFAULT_RULE_OPTIONS, ruleDef.options)\<close>: a source that is null
  or undefined is skipped.
\<close>

definition DEFAULT_RULE_OPTIONS :: props where
  "DEFAULT_RULE_OPTIONS = [(''delay'', Num 0)]"

definition object_assign :: "props \<Rightarrow> jsval \<Rightarrow> props" where
  "object_assign target source =
     (if nullish source then target
      else foldl (\<lambda>t (k, v). obj_set t k v) target (own_entries source))"

definition rule :: "env \<Rightarrow> jsval \<Rightarrow> nat \<Rightarrow> exn + (log_entry list \<times> rule)" where
  "rule E ruleDef ruleNo =
     (case get_prop ruleDef ''when'' of
        Inl e \<Rightarrow> Inl e
      | Inr whenDef \<Rightarrow>
          (let (log1, m) = matcher E whenDef ruleNo;
               (log2, r) = replacer E (own_prop ruleDef ''then'') ruleNo;
               paapiDef = own_prop ruleDef ''paapi'';
               (log3, p) = paapiReplacer E (if truthy paapiDef then paapiDef else Arr []) ruleNo
           in Inr (log1 @ log2 @ log3,
                   \<lparr>no = ruleNo, match_fn = m, replace = r,
                    options = object_assign (object_assign [] (Obj DEFAULT_RULE_OPTIONS))
                                (own_prop ruleDef ''options''),
                    paapi = p\<rparr>)))"

text \<open>
  \<^verbatim>\<open>updateConfig(config)\<close> compiles \<^verbatim>\<open>config.intercept || []\<close> in order, numbering
  the rules from 1; it returns the new rule list and what was logged.
\<close>

fun rules_from :: "env \<Rightarrow> jsval list \<Rightarrow> nat \<Rightarrow> exn + (log_entry list \<times> rule list)" where
  "rules_from E [] i = Inr ([], [])"
| "rules_from E (ruleDef # ruleDefs) i =
     (case rule E ruleDef (i + 1) of
        Inl e \<Rightarrow> Inl e
      | Inr (log1, r) \<Rightarrow>
          (case rules_from E ruleDefs (i + 1) of
             Inl e \<Rightarrow> Inl e
           | Inr (log2, rs) \<Rightarrow> Inr (log1 @ log2, r # rs)))"

definition updateConfig :: "env \<Rightarrow> jsval \<Rightarrow> exn + (log_entry list \<times> rule list)" where
  "updateConfig E config =
     (case get_prop config ''intercept'' of
        Inl e \<Rightarrow> Inl e
      | Inr defs \<Rightarrow>
          (case (if truthy defs then defs else Arr []) of
             Arr ruleDefs \<Rightarrow> rules_from E ruleDefs 0
           | _ \<Rightarrow> Inl TypeError))"

section \<open>match and matchAll\<close>

text \<open>
  \<^verbatim>\<open>this.rules.find((rule) => rule.match(candidate, ...args))\<close>: the rules are tried
  in order, the first whose predicate returns a truthy value is returned, and a throw
  of a predicate propagates.
\<close>

fun match :: "rule list \<Rightarrow> jsval \<Rightarrow> jsval list \<Rightarrow> exn + rule option" where
  "match [] candidate args = Inr None"
| "match (r # rs) candidate args =
     (case match_fn r candidate args of
        Inl e \<Rightarrow> Inl e
      | Inr v \<Rightarrow> if truthy v then Inr (Some r) else match rs candidate args)"

text \<open>
  \<^verbatim>\<open>matchAll(bids, bidRequest)\<close> over the elements of \<open>bids\<close>; a pair \<open>(rule, bid)\<close>
  is the object \<^verbatim>\<open>{rule: rule, bid: bid}\<close>.
\<close>

fun matchAll :: "rule list \<Rightarrow> jsval list \<Rightarrow> jsval \<Rightarrow> exn + ((rule \<times> jsval) list \<times> jsval list)" where
  "matchAll rs [] bidRequest = Inr ([], [])"
| "matchAll rs (bid # bids) bidRequest =
     (case match rs bid [bidRequest] of
        Inl e \<Rightarrow> Inl e
      | Inr found \<Rightarrow>
          (case matchAll rs bids bidRequest of
             Inl e \<Rightarrow> Inl e
           | Inr (matches', remainder) \<Rightarrow>
               (case found of
                  Some r \<Rightarrow> Inr ((r, bid) # matches', remainder)
                | None \<Rightarrow> Inr (matches', bid # remainder))))"

section \<open>intercept\<close>

text \<open>
  What \<^verbatim>\<open>intercept\<close> hands to \<^verbatim>\<open>this.setTimeout\<close>: the delivery closure of a match
  or the callback \<^verbatim>\<open>done\<close> itself. A timer is a task with its delay. The closure
  holds the mock response, the bid and the mock PAAPI configs, which are constants
  of one \<^verbatim>\<open>forEach\<close> step, and it reads the variable \<^verbatim>\<open>bidRequest\<close> when it runs:
  by then \<^verbatim>\<open>intercept\<close> has assigned the clone to that variable, so the last
  component of \<open>Deliver\<close> is the bid request \<^verbatim>\<open>intercept\<close> returns.
\<close>

datatype task =
    Deliver jsval jsval "jsval list" jsval
  | Done_task

text \<open>The calls of the callbacks \<^verbatim>\<open>addBid\<close>, \<^verbatim>\<open>addPaapiConfig\<close> and \<^verbatim>\<open>done\<close>.\<close>

datatype event =
    AddBid jsval jsval
  | AddPaapiConfig jsval jsval jsval
  | Done

text \<open>
  Modelled from the spec: \<^verbatim>\<open>deepClone\<close> of \<^verbatim>\<open>src/utils.js\<close>, which is not among the
  sources. The spec: a deep, independent copy; a copy has the value of the original.
\<close>

definition deepClone :: "jsval \<Rightarrow> jsval" where
  "deepClone v = v"

text \<open>
  \<^verbatim>\<open>o.k = v\<close> in strict mode: a TypeError on null, undefined and the primitives. A
  property stored on an array, a function or a regular expression has no
  representation here and is also reported as an error.
\<close>

definition set_prop :: "jsval \<Rightarrow> string \<Rightarrow> jsval \<Rightarrow> exn + jsval" where
  "set_prop target k v =
     (case target of Obj kvs \<Rightarrow> Inr (Obj (obj_set kvs k v)) | _ \<Rightarrow> Inl TypeError)"

text \<open>
  The body of \<^verbatim>\<open>matches.forEach\<close>: the response and the configs are computed at
  once from the bid request as received, the message is logged, and the delivery is
  scheduled after the rule's delay. Calling \<^verbatim>\<open>match.rule.paapi\<close> is a TypeError when
  it is undefined. The result is the message, the delay and what the closure holds:
  the mock response, the bid and the mock PAAPI configs.
\<close>

type_synonym captured = "jsval \<times> jsval \<times> jsval list"

definition schedule_match :: "jsval \<Rightarrow> rule \<times> jsval \<Rightarrow> exn + (log_entry \<times> (jsval \<times> captured))" where
  "schedule_match bidRequest m =
     (case m of (r, bid) \<Rightarrow>
        (case replace r bid [bidRequest] of
           Inl e \<Rightarrow> Inl e
         | Inr mockResponse \<Rightarrow>
             (case (case paapi r of
                      None \<Rightarrow> Inl TypeError
                    | Some g \<Rightarrow> g [bid, bidRequest]) of
                Inl e \<Rightarrow> Inl e
              | Inr mockPaapi \<Rightarrow>
                  (let delay = own_prop (Obj (options r)) ''delay''
                   in Inr (LogMessage_intercepted (no r) delay bid mockResponse (Arr mockPaapi),
                           (delay, (mockResponse, bid, mockPaapi)))))))"

fun schedule_all :: "jsval \<Rightarrow> (rule \<times> jsval) list \<Rightarrow> exn + (log_entry \<times> (jsval \<times> captured)) list" where
  "schedule_all bidRequest [] = Inr []"
| "schedule_all bidRequest (m # ms) =
     (case schedule_match bidRequest m of
        Inl e \<Rightarrow> Inl e
      | Inr s \<Rightarrow> (case schedule_all bidRequest ms of
                   Inl e \<Rightarrow> Inl e | Inr ss \<Rightarrow> Inr (s # ss)))"

text \<open>
  The result of a call of \<^verbatim>\<open>intercept\<close> that returns: the returned object
  \<^verbatim>\<open>{bids, bidRequest}\<close>, the timers handed to \<^verbatim>\<open>setTimeout\<close> in order, the number
  of calls \<^verbatim>\<open>callDone\<close> waits for (0 when no \<^verbatim>\<open>callDone\<close> was made), the messages
  logged, and the callbacks called before \<^verbatim>\<open>intercept\<close> returned. A call that throws
  is \<open>Inl\<close>; what it had scheduled before is not reported.
\<close>

record outcome =
  ret_bids :: jsval
  ret_bidRequest :: jsval
  timers :: "(jsval \<times> task) list"
  numRequiredCalls :: nat
  logged :: "log_entry list"
  called :: "event list"

definition intercept :: "rule list \<Rightarrow> jsval \<Rightarrow> jsval \<Rightarrow> exn + outcome" where
  "intercept rs bids bidRequest =
     (case (if nullish bids then get_prop bidRequest ''bids'' else Inr bids) of
        Inl e \<Rightarrow> Inl e
      | Inr bids \<Rightarrow>
          (case bids of
             Arr bs \<Rightarrow>
               (case matchAll rs bs bidRequest of
                  Inl e \<Rightarrow> Inl e
                | Inr (matches', remainder) \<Rightarrow>
                    if length matches' > 0
                    then
                      (case schedule_all bidRequest matches' of
                         Inl e \<Rightarrow> Inl e
                       | Inr scheduled \<Rightarrow>
                           (case set_prop (deepClone bidRequest) ''bids'' (Arr remainder) of
                              Inl e \<Rightarrow> Inl e
                            | Inr bidRequest' \<Rightarrow>
                                Inr \<lparr>ret_bids = Arr remainder,
                                     ret_bidRequest = bidRequest',
                                     timers =
                                       map (\<lambda>(entry, delay, mockResponse, bid, mockPaapi).
                                              (delay, Deliver mockResponse bid mockPaapi bidRequest'))
                                         scheduled,
                                     numRequiredCalls = length matches',
                                     logged = map fst scheduled,
                                     called = []\<rparr>))
                    else
                      Inr \<lparr>ret_bids = bids,
                           ret_bidRequest = bidRequest,
                           timers = [(Num 0, Done_task)],
                           numRequiredCalls = 0,
                           logged = [],
                           called = []\<rparr>)
           | _ \<Rightarrow> Inl TypeError))"

section \<open>Running the timers\<close>

text \<open>
  Modelled from the spec: \<^verbatim>\<open>delayExecution\<close> of \<^verbatim>\<open>src/utils.js\<close>, which is not
  among the sources. The spec: a counter initialised to the match count, decremented
  by each delivery's completion, triggering \<^verbatim>\<open>done\<close> at zero. The state of a run is
  the calls made so far and the counter.
\<close>

record run_state =
  events :: "event list"
  remaining :: int

definition callDone :: "run_state \<Rightarrow> run_state" where
  "callDone st =
     (let n = remaining st - 1
      in \<lparr>events = events st @ (if n = 0 then [Done] else []), remaining = n\<rparr>)"

text \<open>The side effects of one delivery, in the order of the closure's statements.\<close>

definition delivery_events :: "jsval \<Rightarrow> jsval \<Rightarrow> jsval list \<Rightarrow> jsval \<Rightarrow> event list" where
  "delivery_events mockResponse bid mockPaapi bidRequest =
     (if truthy mockResponse then [AddBid mockResponse bid] else [])
     @ map (\<lambda>cfg. AddPaapiConfig cfg bid bidRequest) mockPaapi"

fun fire :: "task \<Rightarrow> run_state \<Rightarrow> run_state" where
  "fire (Deliver mockResponse bid mockPaapi bidRequest) st =
     callDone (st\<lparr>events := events st @ delivery_events mockResponse bid mockPaapi bidRequest\<rparr>)"
| "fire Done_task st = st\<lparr>events := events st @ [Done]\<rparr>"

text \<open>
  The timers fire one at a time, each once, in an order the scheduling primitive
  chooses from the delays: \<open>run\<close> fires the tasks in a given order.
\<close>

fun run :: "task list \<Rightarrow> run_state \<Rightarrow> run_state" where
  "run [] st = st"
| "run (t # ts) st = run ts (fire t st)"

definition start :: "outcome \<Rightarrow> run_state" where
  "start out = \<lparr>events = called out, remaining = int (numRequiredCalls out)\<rparr>"

section \<open>Notions used to state the properties\<close>

text \<open>
  A rule accepts a candidate when its predicate returns a truthy value, and rejects it
  when its predicate returns a falsy one; a predicate that throws does neither.
\<close>

definition accepts :: "rule \<Rightarrow> jsval \<Rightarrow> jsval list \<Rightarrow> bool" where
  "accepts r candidate args =
     (case match_fn r candidate args of Inl e \<Rightarrow> False | Inr v \<Rightarrow> truthy v)"

definition rejects :: "rule \<Rightarrow> jsval \<Rightarrow> jsval list \<Rightarrow> bool" where
  "rejects r candidate args =
     (case match_fn r candidate args of Inl e \<Rightarrow> False | Inr v \<Rightarrow> \<not> truthy v)"

text \<open>A bid is matched when \<^verbatim>\<open>match(bid, bidRequest)\<close> returns a rule.\<close>

definition is_matched :: "rule list \<Rightarrow> jsval \<Rightarrow> jsval \<Rightarrow> bool" where
  "is_matched rs bidRequest bid =
     (case match rs bid [bidRequest] of Inr (Some r) \<Rightarrow> True | _ \<Rightarrow> False)"

text \<open>The side effects of a delivery, without its completion signal.\<close>

fun task_effects :: "task \<Rightarrow> event list" where
  "task_effects (Deliver mockResponse bid mockPaapi bidRequest) =
     delivery_events mockResponse bid mockPaapi bidRequest"
| "task_effects Done_task = []"

fun is_delivery :: "task \<Rightarrow> bool" where
  "is_delivery (Deliver mockResponse bid mockPaapi bidRequest) = True"
| "is_delivery Done_task = False"

text \<open>
  The normal form of one auxiliary config: an entry with a key outside
  \<open>{config, igb}\<close> is wrapped as \<^verbatim>\<open>{config: entry}\<close>, any other entry is kept.
\<close>

definition normalized :: "jsval \<Rightarrow> jsval" where
  "normalized config =
     (if fst ` set (own_entries config) \<subseteq> {''config'', ''igb''}
      then config else Obj [(''config'', config)])"

text \<open>A resolver keeps the fields of the response it is given (it may add fields).\<close>

definition keeps_fields :: "env \<Rightarrow> jsval \<Rightarrow> bool" where
  "keeps_fields E bid =
     (\<forall>mt f response. resolvers E mt = Some f \<longrightarrow>
        (\<exists>response'. f bid response = Inr response' \<and>
           (\<forall>k v. map_of response k = Some v \<longrightarrow> map_of response' k = Some v)))"

text \<open>
  An environment with one user function, \<^verbatim>\<open>() => 9.99\<close> at index 0, no other
  function, no regular expression that matches and no registered resolver.
\<close>

definition env0 :: env where
  "env0 = \<lparr>call = (\<lambda>f args. if f = 0 then Inr (Num 9.99) else Inr Undefined),
           rx_exec = (\<lambda>r v. False),
           resolvers = (\<lambda>mt. None)\<rparr>"

text \<open>
  A rule compiled in \<open>env0\<close> from a definition with a \<^verbatim>\<open>when\<close> only:
  what \<^verbatim>\<open>rule({when: whenDef}, n)\<close> returns.
\<close>

definition sample_rule :: "jsval \<Rightarrow> nat \<Rightarrow> rule" where
  "sample_rule whenDef n =
     \<lparr>no = n,
      match_fn = snd (matcher env0 whenDef n),
      replace = snd (replacer env0 Undefined n),
      options = DEFAULT_RULE_OPTIONS,
      paapi = snd (paapiReplacer env0 (Arr []) n)\<rparr>"

section \<open>The empty object matcher\<close>

text \<open>
  C10. A \<^verbatim>\<open>when\<close> that is the empty object compiles, with nothing logged, to a
  predicate that returns true for every candidate and all arguments; a rule with this
  predicate is the rule \<^verbatim>\<open>match\<close> returns for every candidate that reaches it.
\<close>

theorem matcher_empty_object_always_true:
  "fst (matcher E (Obj []) ruleNo) = []
   \<and> snd (matcher E (Obj []) ruleNo) candidate args = Inr (Bool True)
   \<and> match (r\<lparr>match_fn := snd (matcher E (Obj []) ruleNo)\<rparr> # rs) candidate args
       = Inr (Some (r\<lparr>match_fn := snd (matcher E (Obj []) ruleNo)\<rparr>))"
  by (simp add: matcher_def matches_def)


section \<open>First match wins\<close>

lemma match_append_rejected:
  "\<forall>q\<in>set pre. rejects q candidate args \<Longrightarrow>
   match (pre @ rs) candidate args = match rs candidate args"
  by (induction pre) (auto simp: rejects_def split: sum.splits)

lemma match_Some_split:
  "match rs candidate args = Inr (Some r) \<Longrightarrow>
   \<exists>pre post. rs = pre @ r # post \<and> (\<forall>q\<in>set pre. rejects q candidate args)
     \<and> accepts r candidate args"
proof (induction rs)
  case Nil
  then show ?case by simp
next
  case (Cons a rs)
  show ?case
  proof (cases "accepts a candidate args")
    case True
    with Cons.prems have "a = r"
      by (auto simp: accepts_def split: sum.splits if_splits)
    with True show ?thesis by (intro exI [of _ "[]"] exI [of _ rs]) simp
  next
    case False
    with Cons.prems have rej: "rejects a candidate args" and rest: "match rs candidate args = Inr (Some r)"
      by (auto simp: accepts_def rejects_def split: sum.splits if_splits)
    from Cons.IH [OF rest] obtain pre post where
      "rs = pre @ r # post" "\<forall>q\<in>set pre. rejects q candidate args" "accepts r candidate args"
      by blast
    with rej show ?thesis
      by (intro exI [of _ "a # pre"] exI [of _ post]) simp
  qed
qed

lemma match_None_iff:
  "match rs candidate args = Inr None \<longleftrightarrow> (\<forall>q\<in>set rs. rejects q candidate args)"
  by (induction rs) (auto simp: rejects_def split: sum.splits)

text \<open>
  C4. \<^verbatim>\<open>match\<close> returns a rule exactly when that rule accepts the candidate and
  every rule before it in the list rejects it, so of two rules that accept, the earlier
  one is returned; it returns nothing exactly when every rule rejects the candidate.
\<close>

theorem match_first_wins:
  "(match rs candidate args = Inr (Some r) \<longleftrightarrow>
      (\<exists>pre post. rs = pre @ r # post \<and> (\<forall>q\<in>set pre. rejects q candidate args)
         \<and> accepts r candidate args))
   \<and> (match rs candidate args = Inr None \<longleftrightarrow> (\<forall>q\<in>set rs. rejects q candidate args))"
proof -
  have "match rs candidate args = Inr (Some r)"
    if "rs = pre @ r # post" "\<forall>q\<in>set pre. rejects q candidate args" "accepts r candidate args"
    for pre post
    using that by (auto simp: match_append_rejected accepts_def split: sum.splits)
  then show ?thesis
    using match_Some_split [of rs candidate args r] match_None_iff [of rs candidate args]
    by blast
qed

theorem match_first_wins_witness:
  "match [sample_rule (Obj [(''bidder'', Str ''a'')]) 1, sample_rule (Obj []) 2,
          sample_rule (Obj []) 3] (Obj [(''bidder'', Str ''b'')]) []
   = Inr (Some (sample_rule (Obj []) 2))"
proof -
  let ?c = "Obj [(''bidder'', Str ''b'')]"
  let ?r1 = "sample_rule (Obj [(''bidder'', Str ''a'')]) 1"
  have "rejects ?r1 ?c []"
    by (simp add: rejects_def sample_rule_def matcher_def matches_def get_prop_def own_prop_def)
  moreover have "accepts (sample_rule (Obj []) 2) ?c []"
    by (simp add: accepts_def sample_rule_def matcher_def matches_def)
  ultimately have "\<exists>pre post.
      [?r1, sample_rule (Obj []) 2, sample_rule (Obj []) 3] = pre @ sample_rule (Obj []) 2 # post
      \<and> (\<forall>q\<in>set pre. rejects q ?c []) \<and> accepts (sample_rule (Obj []) 2) ?c []"
    by (intro exI [of _ "[?r1]"] exI [of _ "[sample_rule (Obj []) 3]"]) simp
  then show ?thesis
    using match_first_wins
      [of "[?r1, sample_rule (Obj []) 2, sample_rule (Obj []) 3]" ?c "[]" "sample_rule (Obj []) 2"]
    by blast
qed

section \<open>matchAll partitions the batch\<close>

lemma matchAll_total:
  "\<forall>bid\<in>set bids. \<exists>found. match rs bid [bidRequest] = Inr found \<Longrightarrow>
   \<exists>ms rem. matchAll rs bids bidRequest = Inr (ms, rem)"
  by (induction bids) (auto split: option.splits)

lemma matchAll_filter:
  "matchAll rs bids bidRequest = Inr (ms, rem) \<Longrightarrow>
   map snd ms = filter (is_matched rs bidRequest) bids
   \<and> rem = filter (\<lambda>bid. \<not> is_matched rs bidRequest bid) bids
   \<and> (\<forall>(r, bid)\<in>set ms. match rs bid [bidRequest] = Inr (Some r))"
proof (induction bids arbitrary: ms rem)
  case Nil
  then show ?case by simp
next
  case (Cons bid bids)
  from Cons.prems obtain found ms' rem' where
    f: "match rs bid [bidRequest] = Inr found" and
    rest: "matchAll rs bids bidRequest = Inr (ms', rem')" and
    res: "(ms, rem) = (case found of Some r \<Rightarrow> ((r, bid) # ms', rem') | None \<Rightarrow> (ms', bid # rem'))"
    by (auto split: sum.splits option.splits)
  from Cons.IH [OF rest] f res show ?case
    by (cases found) (auto simp: is_matched_def)
qed

text \<open>
  C5. When \<^verbatim>\<open>match\<close> returns for every bid of the batch, \<^verbatim>\<open>matchAll\<close> returns
  two lists whose lengths add up to the length of the batch: the matched bids, in input
  order and each paired with the rule \<^verbatim>\<open>match\<close> returns for it, and the unmatched
  bids, in input order. Together they hold every bid of the batch as often as the
  batch does, and no bid is in both.
\<close>

theorem matchAll_partitions:
  assumes "\<forall>bid\<in>set bids. \<exists>found. match rs bid [bidRequest] = Inr found"
  shows "\<exists>ms rem. matchAll rs bids bidRequest = Inr (ms, rem)
           \<and> length ms + length rem = length bids
           \<and> map snd ms = filter (is_matched rs bidRequest) bids
           \<and> rem = filter (\<lambda>bid. \<not> is_matched rs bidRequest bid) bids
           \<and> mset (map snd ms) + mset rem = mset bids
           \<and> set (map snd ms) \<inter> set rem = {}
           \<and> (\<forall>(r, bid)\<in>set ms. match rs bid [bidRequest] = Inr (Some r))"
proof -
  from matchAll_total [OF assms] obtain ms rem where
    eq: "matchAll rs bids bidRequest = Inr (ms, rem)" by blast
  note f = matchAll_filter [OF eq]
  have len: "length ms + length rem = length bids"
  proof -
    have "length ms = length (map snd ms)" by simp
    also have "\<dots> = length (filter (is_matched rs bidRequest) bids)" using f by simp
    finally show ?thesis using f sum_length_filter_compl [of "is_matched rs bidRequest" bids]
      by simp
  qed
  have ms: "mset (map snd ms) + mset rem = mset bids"
    using f by (simp del: mset_map)
  have disj: "set (map snd ms) \<inter> set rem = {}"
  proof -
    have "set (map snd ms) = {b \<in> set bids. is_matched rs bidRequest b}"
      using f by (simp del: set_map)
    moreover have "set rem = {b \<in> set bids. \<not> is_matched rs bidRequest b}"
      using f by simp
    ultimately show ?thesis by blast
  qed
  from eq len ms disj f show ?thesis by blast
qed

theorem matchAll_partitions_witness:
  "\<exists>ms rem.
     matchAll [sample_rule (Obj [(''bidder'', Str ''a'')]) 1]
       [Obj [(''bidder'', Str ''a'')], Obj [(''bidder'', Str ''b'')]] (Obj []) = Inr (ms, rem)
     \<and> length ms + length rem = 2"
proof -
  have "\<forall>bid\<in>set [Obj [(''bidder'', Str ''a'')], Obj [(''bidder'', Str ''b'')]].
          \<exists>found. match [sample_rule (Obj [(''bidder'', Str ''a'')]) 1] bid [Obj []] = Inr found"
    by (simp add: sample_rule_def matcher_def matches_def get_prop_def own_prop_def)
  from matchAll_partitions [OF this] show ?thesis by auto
qed

section \<open>Evaluating property reads\<close>

lemma own_prop_Obj:
  "own_prop (Obj kvs) k = (case map_of kvs k of Some x \<Rightarrow> x | None \<Rightarrow> Undefined)"
  by (simp add: own_prop_def)

lemma own_prop_scalar:
  "own_prop Undefined k = Undefined" "own_prop Null k = Undefined"
  "own_prop (Bool b) k = Undefined" "own_prop (Num n) k = Undefined"
  by (simp_all add: own_prop_def)

lemma show_nat_digits: "show_nat 0 = ''0''" "show_nat (Suc 0) = ''1''"
  by (simp_all add: show_nat.simps digit_char_def)

lemma own_entries_Arr_Cons:
  "own_entries (Arr (x # xs)) = (''0'', x) # zip (map show_nat [Suc 0..<Suc (length xs)]) xs"
  by (simp add: upt_conv_Cons show_nat_digits del: upt_Suc)

lemma own_prop_Arr_0: "own_prop (Arr (x # xs)) ''0'' = x"
  by (simp add: own_prop_def own_entries_Arr_Cons del: own_entries.simps upt_Suc)

lemma own_prop_Arr_1: "own_prop (Arr (x # y # xs)) ''1'' = y"
proof -
  have "[Suc 0..<Suc (Suc (length xs))] = Suc 0 # [Suc (Suc 0)..<Suc (Suc (length xs))]"
    by (simp add: upt_conv_Cons del: upt_Suc)
  then show ?thesis
    by (simp add: own_prop_def own_entries_Arr_Cons show_nat_digits del: own_entries.simps upt_Suc)
qed

lemma sample_rule_compiled:
  "\<exists>lg. rule env0 (Obj [(''when'', whenDef)]) n = Inr (lg, sample_rule whenDef n)"
  by (simp add: rule_def get_prop_def own_prop_Obj sample_rule_def Let_def split_def
        object_assign_def DEFAULT_RULE_OPTIONS_def)

section \<open>Auxiliary configs, the fast path and the completion of deliveries\<close>

lemma wrap_config_normalized:
  "\<not> nullish config \<Longrightarrow> wrap_config config = Inr (normalized config)"
  by (auto simp: wrap_config_def object_keys_def normalized_def list_ex_iff)

lemma wrap_all_normalized:
  "\<forall>c\<in>set xs. \<not> nullish c \<Longrightarrow> wrap_all xs = Inr (map normalized xs)"
  by (induction xs) (simp_all add: wrap_config_normalized)

text \<open>
  C8. The generator compiled from an array of entries that are neither null nor
  undefined returns, for all arguments, the array of the normalized entries: an entry
  with a key outside \<open>{config, igb}\<close> wrapped as \<^verbatim>\<open>{config: entry}\<close>, any other
  entry (the empty object too) unchanged. The generator compiled from a function
  returns the same for the array the function returns, and the empty sequence when
  the function returns undefined. The result is a sequence in each case.
\<close>

theorem paapiReplacer_normalizes:
  "((\<forall>c\<in>set xs. \<not> nullish c) \<longrightarrow>
      (\<exists>g. paapiReplacer E (Arr xs) ruleNo = ([], Some g)
         \<and> (\<forall>args. g args = Inr (map normalized xs))))
   \<and> (call E f args = Inr (Arr xs) \<and> (\<forall>c\<in>set xs. \<not> nullish c) \<longrightarrow>
      (\<exists>g. paapiReplacer E (Fn f) ruleNo = ([], Some g)
         \<and> g args = Inr (map normalized xs)))
   \<and> (call E f args = Inr Undefined \<longrightarrow>
      (\<exists>g. paapiReplacer E (Fn f) ruleNo = ([], Some g) \<and> g args = Inr []))"
  by (simp add: paapiReplacer_def wrap_def wrap_all_normalized)

theorem paapiReplacer_normalizes_witness:
  "\<exists>g. paapiReplacer env0
          (Arr [Obj [(''seller'', Str ''x'')],
                Obj [(''config'', Obj [(''seller'', Str ''x'')]), (''igb'', Arr [])],
                Obj []]) 1 = ([], Some g)
      \<and> g [] = Inr [Obj [(''config'', Obj [(''seller'', Str ''x'')])],
                    Obj [(''config'', Obj [(''seller'', Str ''x'')]), (''igb'', Arr [])],
                    Obj []]"
proof -
  let ?xs = "[Obj [(''seller'', Str ''x'')],
              Obj [(''config'', Obj [(''seller'', Str ''x'')]), (''igb'', Arr [])],
              Obj []]"
  have "\<forall>c\<in>set ?xs. \<not> nullish c" by simp
  with paapiReplacer_normalizes [of ?xs env0 1] obtain g where
    "paapiReplacer env0 (Arr ?xs) 1 = ([], Some g)" "\<forall>args. g args = Inr (map normalized ?xs)"
    by blast
  then show ?thesis by (intro exI [of _ g]) (simp add: normalized_def)
qed

lemma matchAll_no_match:
  "\<forall>bid\<in>set bs. match rs bid [bidRequest] = Inr None \<Longrightarrow>
   matchAll rs bs bidRequest = Inr ([], bs)"
  by (induction bs) simp_all

text \<open>
  C9. When no bid of the batch (the supplied \<^verbatim>\<open>bids\<close>, or \<^verbatim>\<open>bidRequest.bids\<close> when
  none is supplied) matches a rule, \<^verbatim>\<open>intercept\<close> returns that batch and the bid
  request as they are, calls no callback before it returns, schedules the one timer
  \<^verbatim>\<open>done\<close> with delay 0, and the run of that timer calls \<^verbatim>\<open>done\<close> exactly once.
\<close>

theorem intercept_no_match:
  assumes "(if nullish bids then get_prop bidRequest ''bids'' else Inr bids) = Inr (Arr bs)"
    and "\<forall>bid\<in>set bs. match rs bid [bidRequest] = Inr None"
  shows "\<exists>out. intercept rs bids bidRequest = Inr out
           \<and> ret_bids out = Arr bs \<and> ret_bidRequest out = bidRequest
           \<and> timers out = [(Num 0, Done_task)] \<and> called out = []
           \<and> events (run (map snd (timers out)) (start out)) = [Done]"
  using assms(1) matchAll_no_match [OF assms(2)]
  by (simp add: intercept_def start_def)

lemma run_append: "run (ts @ us) st = run us (run ts st)"
  by (induction ts arbitrary: st) simp_all

lemma delivery_events_no_Done: "Done \<notin> set (delivery_events a b c d)"
  by (auto simp: delivery_events_def)

lemma task_effects_no_Done: "Done \<notin> set (concat (map task_effects ts))"
proof (induction ts)
  case Nil
  then show ?case by simp
next
  case (Cons t ts)
  then show ?case by (cases t) (simp_all add: delivery_events_no_Done)
qed

lemma run_deliveries_pending:
  "\<forall>t\<in>set ts. is_delivery t \<Longrightarrow> int (length ts) < remaining st \<Longrightarrow>
   events (run ts st) = events st @ concat (map task_effects ts)
   \<and> remaining (run ts st) = remaining st - int (length ts)"
proof (induction ts arbitrary: st)
  case Nil
  then show ?case by simp
next
  case (Cons t ts)
  from Cons.prems obtain a b c d where t: "t = Deliver a b c d"
    by (cases t) auto
  let ?st = "fire t st"
  have ev: "events ?st = events st @ task_effects t" and re: "remaining ?st = remaining st - 1"
    using Cons.prems(2) by (simp_all add: t callDone_def Let_def)
  have "int (length ts) < remaining ?st" using Cons.prems(2) re by simp
  with Cons.IH [of ?st] Cons.prems(1) ev re show ?case by simp
qed

lemma run_deliveries_complete:
  assumes "\<forall>t\<in>set ts. is_delivery t" and "ts \<noteq> []" and "remaining st = int (length ts)"
  shows "events (run ts st) = events st @ concat (map task_effects ts) @ [Done]"
proof -
  from assms(2) obtain us t where ts: "ts = us @ [t]"
    by (cases ts rule: rev_cases) auto
  from assms(1) ts obtain a b c d where t: "t = Deliver a b c d"
    by (cases t) auto
  have "events (run us st) = events st @ concat (map task_effects us)
        \<and> remaining (run us st) = remaining st - int (length us)"
    using assms(1,3) ts by (intro run_deliveries_pending) auto
  then show ?thesis
    using assms(3) by (simp add: ts run_append t callDone_def Let_def)
qed

lemma schedule_all_length:
  "schedule_all bidRequest ms = Inr ss \<Longrightarrow> length ss = length ms"
  by (induction ms arbitrary: ss) (auto split: sum.splits)

lemma intercept_matches_timers:
  assumes "intercept rs bids bidRequest = Inr out" and "0 < numRequiredCalls out"
  shows "length (timers out) = numRequiredCalls out
         \<and> (\<forall>t\<in>set (map snd (timers out)). is_delivery t) \<and> called out = []"
  using assms
  by (fastforce simp: intercept_def split: sum.splits jsval.splits prod.splits if_splits
           dest!: schedule_all_length)

text \<open>
  C3. When \<^verbatim>\<open>intercept\<close> returns with at least one match, then in whatever order the
  scheduled deliveries fire (each once), \<^verbatim>\<open>done\<close> is called exactly once, as the last
  call, after the side effects of every delivery; after any proper prefix of the
  deliveries \<^verbatim>\<open>done\<close> has not been called.
\<close>

theorem done_after_all_deliveries:
  assumes "intercept rs bids bidRequest = Inr out"
    and "0 < numRequiredCalls out"
    and "mset order = mset (map snd (timers out))"
  shows "events (run order (start out)) = concat (map task_effects order) @ [Done]
         \<and> Done \<notin> set (concat (map task_effects order))
         \<and> (\<forall>k<length order. Done \<notin> set (events (run (take k order) (start out))))"
proof -
  note tm = intercept_matches_timers [OF assms(1,2)]
  have len: "length order = numRequiredCalls out"
    using assms(3) tm by (metis length_map size_mset)
  have dl: "\<forall>t\<in>set order. is_delivery t"
    using assms(3) tm by (metis set_mset_mset)
  have ne: "order \<noteq> []" using len assms(2) by auto
  have st: "events (start out) = []" "remaining (start out) = int (length order)"
    using tm len by (simp_all add: start_def)
  have full: "events (run order (start out)) = concat (map task_effects order) @ [Done]"
    using run_deliveries_complete [OF dl ne st(2)] st(1) by simp
  have pre: "Done \<notin> set (events (run (take k order) (start out)))" if "k < length order" for k
  proof -
    have "\<forall>t\<in>set (take k order). is_delivery t"
      using dl by (meson in_set_takeD)
    moreover have "int (length (take k order)) < remaining (start out)"
      using that st(2) by simp
    ultimately have "events (run (take k order) (start out))
        = events (start out) @ concat (map task_effects (take k order))"
      using run_deliveries_pending by blast
    then show ?thesis using st(1) task_effects_no_Done by simp
  qed
  from full pre task_effects_no_Done show ?thesis by blast
qed

section \<open>Evaluation of the sample rules\<close>

lemmas compile_defs =
  updateConfig_def rule_def matcher_def replacer_def paapiReplacer_def replFn_of_def
  object_assign_def DEFAULT_RULE_OPTIONS_def get_prop_def own_prop_Obj own_prop_scalar
  own_prop_Arr_0 own_prop_Arr_1 env0_def

lemmas respond_defs =
  respond_def responseDefaults_def inferred_mediaType_def default_size_def first_key_def
  nullish_or_def opt_prop_def mergeDeep_def replFn_def BANNER_def VIDEO_def

lemmas intercept_defs =
  intercept_def schedule_match_def matches_def wrap_def deepClone_def set_prop_def

theorem intercept_no_match_witness:
  "\<exists>out. intercept [sample_rule (Obj [(''bidder'', Str ''a'')]) 1]
            (Arr [Obj [(''bidder'', Str ''b'')]]) (Obj [(''auctionId'', Str ''x'')]) = Inr out
         \<and> ret_bids out = Arr [Obj [(''bidder'', Str ''b'')]]
         \<and> ret_bidRequest out = Obj [(''auctionId'', Str ''x'')]
         \<and> timers out = [(Num 0, Done_task)] \<and> called out = []
         \<and> events (run (map snd (timers out)) (start out)) = [Done]"
proof -
  let ?bids = "Arr [Obj [(''bidder'', Str ''b'')]]"
  have 1: "(if nullish ?bids then get_prop (Obj [(''auctionId'', Str ''x'')]) ''bids'' else Inr ?bids)
           = Inr (Arr [Obj [(''bidder'', Str ''b'')]])"
    by simp
  have 2: "\<forall>bid\<in>set [Obj [(''bidder'', Str ''b'')]].
             match [sample_rule (Obj [(''bidder'', Str ''a'')]) 1] bid [Obj [(''auctionId'', Str ''x'')]]
             = Inr None"
    by (simp add: sample_rule_def matcher_def matches_def get_prop_def own_prop_Obj)
  from intercept_no_match [OF 1 2] show ?thesis .
qed

lemma two_delays:
  "\<exists>lg rs out ra rb.
     updateConfig env0
       (Obj [(''intercept'',
              Arr [Obj [(''when'', Obj [(''bidder'', Str ''a'')]),
                        (''options'', Obj [(''delay'', Num 100)])],
                   Obj [(''when'', Obj [(''bidder'', Str ''b'')]),
                        (''options'', Obj [(''delay'', Num 10)])]])]) = Inr (lg, rs)
     \<and> intercept rs
         (Arr [Obj [(''bidId'', Str ''1''), (''bidder'', Str ''a'')],
               Obj [(''bidId'', Str ''2''), (''bidder'', Str ''b'')]]) (Obj []) = Inr out
     \<and> numRequiredCalls out = 2
     \<and> timers out =
          [(Num 100, Deliver (Obj ra) (Obj [(''bidId'', Str ''1''), (''bidder'', Str ''a'')]) []
                      (Obj [(''bids'', Arr [])])),
           (Num 10, Deliver (Obj rb) (Obj [(''bidId'', Str ''2''), (''bidder'', Str ''b'')]) []
                      (Obj [(''bids'', Arr [])]))]"
  by (simp add: compile_defs respond_defs intercept_defs Let_def)

section \<open>Deliveries of two rules and of a null response\<close>

theorem done_after_all_deliveries_witness:
  "\<exists>lg rs out ra rb.
     updateConfig env0
       (Obj [(''intercept'',
              Arr [Obj [(''when'', Obj [(''bidder'', Str ''a'')]),
                        (''options'', Obj [(''delay'', Num 100)])],
                   Obj [(''when'', Obj [(''bidder'', Str ''b'')]),
                        (''options'', Obj [(''delay'', Num 10)])]])]) = Inr (lg, rs)
     \<and> intercept rs
         (Arr [Obj [(''bidId'', Str ''1''), (''bidder'', Str ''a'')],
               Obj [(''bidId'', Str ''2''), (''bidder'', Str ''b'')]]) (Obj []) = Inr out
     \<and> map fst (timers out) = [Num 100, Num 10]
     \<and> events (run (rev (map snd (timers out))) (start out))
         = [AddBid (Obj rb) (Obj [(''bidId'', Str ''2''), (''bidder'', Str ''b'')]),
            AddBid (Obj ra) (Obj [(''bidId'', Str ''1''), (''bidder'', Str ''a'')]),
            Done]"
proof -
  let ?cfg = "Obj [(''intercept'',
              Arr [Obj [(''when'', Obj [(''bidder'', Str ''a'')]),
                        (''options'', Obj [(''delay'', Num 100)])],
                   Obj [(''when'', Obj [(''bidder'', Str ''b'')]),
                        (''options'', Obj [(''delay'', Num 10)])]])]"
  let ?bidA = "Obj [(''bidId'', Str ''1''), (''bidder'', Str ''a'')]"
  let ?bidB = "Obj [(''bidId'', Str ''2''), (''bidder'', Str ''b'')]"
  from two_delays obtain lg rs out ra rb where
    uc: "updateConfig env0 ?cfg = Inr (lg, rs)" and
    ic: "intercept rs (Arr [?bidA, ?bidB]) (Obj []) = Inr out" and
    n: "numRequiredCalls out = 2" and
    tm: "timers out = [(Num 100, Deliver (Obj ra) ?bidA [] (Obj [(''bids'', Arr [])])),
                       (Num 10, Deliver (Obj rb) ?bidB [] (Obj [(''bids'', Arr [])]))]"
    by blast
  have pos: "0 < numRequiredCalls out" using n by simp
  have perm: "mset (rev (map snd (timers out))) = mset (map snd (timers out))"
    by (simp del: mset_map)
  from done_after_all_deliveries [OF ic pos perm]
  have "events (run (rev (map snd (timers out))) (start out))
        = concat (map task_effects (rev (map snd (timers out)))) @ [Done]"
    by blast
  then have "events (run (rev (map snd (timers out))) (start out))
        = [AddBid (Obj rb) ?bidB, AddBid (Obj ra) ?bidA, Done]"
    by (simp add: tm delivery_events_def)
  with uc ic tm show ?thesis by auto
qed

lemma matchAll_member:
  "matchAll rs bs bidRequest = Inr (ms, rem) \<Longrightarrow> bid \<in> set bs \<Longrightarrow>
   match rs bid [bidRequest] = Inr (Some r) \<Longrightarrow> (r, bid) \<in> set ms"
proof (induction bs arbitrary: ms rem)
  case Nil
  then show ?case by simp
next
  case (Cons b bs)
  from Cons.prems(1) obtain found ms' rem' where
    f: "match rs b [bidRequest] = Inr found" and
    rest: "matchAll rs bs bidRequest = Inr (ms', rem')" and
    res: "(ms, rem) = (case found of Some r' \<Rightarrow> ((r', b) # ms', rem') | None \<Rightarrow> (ms', b # rem'))"
    by (auto split: sum.splits option.splits)
  show ?case
  proof (cases "b = bid")
    case True
    with f Cons.prems(3) have "found = Some r" by simp
    with res True show ?thesis by simp
  next
    case False
    with Cons.prems(2) have "bid \<in> set bs" by simp
    from Cons.IH [OF rest this Cons.prems(3)] res show ?thesis
      by (cases found) auto
  qed
qed

lemma schedule_all_member:
  "schedule_all bidRequest ms = Inr ss \<Longrightarrow> m \<in> set ms \<Longrightarrow>
   \<exists>s\<in>set ss. schedule_match bidRequest m = Inr s"
  by (induction ms arbitrary: ss) (auto split: sum.splits)

lemma schedule_all_origin:
  "schedule_all bidRequest ms = Inr ss \<Longrightarrow> s \<in> set ss \<Longrightarrow>
   \<exists>m\<in>set ms. schedule_match bidRequest m = Inr s"
  by (induction ms arbitrary: ss) (auto split: sum.splits)

lemma schedule_match_parts:
  "schedule_match bidRequest (r, bid) = Inr (entry, delay, mockResponse, bid', mockPaapi) \<Longrightarrow>
   bid' = bid \<and> replace r bid [bidRequest] = Inr mockResponse
   \<and> (\<exists>g. paapi r = Some g \<and> g [bid, bidRequest] = Inr mockPaapi)"
  by (auto simp: schedule_match_def Let_def split: sum.splits option.splits)

lemma intercept_with_matches:
  assumes "intercept rs bids bidRequest = Inr out"
    and "(if nullish bids then get_prop bidRequest ''bids'' else Inr bids) = Inr (Arr bs)"
    and "matchAll rs bs bidRequest = Inr (ms, rem)"
    and "ms \<noteq> []"
  shows "\<exists>ss. schedule_all bidRequest ms = Inr ss
           \<and> timers out = map (\<lambda>(entry, delay, mockResponse, bid, mockPaapi).
                  (delay, Deliver mockResponse bid mockPaapi (ret_bidRequest out))) ss
           \<and> numRequiredCalls out = length ms \<and> called out = []"
  using assms
  by (auto simp: intercept_def split: sum.splits)

lemma intercept_matchAll:
  assumes "intercept rs bids bidRequest = Inr out"
    and "(if nullish bids then get_prop bidRequest ''bids'' else Inr bids) = Inr (Arr bs)"
  shows "\<exists>ms rem. matchAll rs bs bidRequest = Inr (ms, rem)"
  using assms
  by (auto simp: intercept_def split: sum.splits)

lemma null_then_replace:
  "rule E ruleDef ruleNo = Inr (lg, r) \<Longrightarrow> own_prop ruleDef ''then'' = Null \<Longrightarrow>
   replace r bid args = Inr Null"
  by (auto simp: rule_def Let_def replacer_def split: sum.splits prod.splits)

lemma fire_null_delivery:
  "events (fire (Deliver Null bid cfgs br) st)
     = events st @ map (\<lambda>cfg. AddPaapiConfig cfg bid br) cfgs
       @ (if remaining st = 1 then [Done] else [])
   \<and> remaining (fire (Deliver Null bid cfgs br) st) = remaining st - 1"
  by (simp add: callDone_def delivery_events_def Let_def)

lemma AddBid_in_effects:
  "AddBid x bid \<in> set (concat (map task_effects ts)) \<Longrightarrow>
   \<exists>cfgs br. Deliver x bid cfgs br \<in> set ts \<and> truthy x"
proof (induction ts)
  case Nil
  then show ?case by simp
next
  case (Cons t ts)
  show ?case
  proof (cases "AddBid x bid \<in> set (task_effects t)")
    case True
    then show ?thesis
      by (cases t) (auto simp: delivery_events_def split: if_splits)
  next
    case False
    with Cons.prems have "AddBid x bid \<in> set (concat (map task_effects ts))" by simp
    from Cons.IH [OF this] show ?thesis by auto
  qed
qed

text \<open>
  C6. Take a call of \<^verbatim>\<open>intercept\<close> that returns, a bid of its batch, and the rule
  \<^verbatim>\<open>match\<close> returns for that bid, compiled from a definition whose \<^verbatim>\<open>then\<close> is
  null. Then the rule has a generator of auxiliary configs, and \<^verbatim>\<open>intercept\<close> has
  scheduled for the bid a delivery with the null response and the configs of that
  generator. Firing that delivery calls \<^verbatim>\<open>addPaapiConfig\<close> once per config, in
  order, never \<^verbatim>\<open>addBid\<close>, and counts down the completion counter by one. In every
  run of the scheduled deliveries \<^verbatim>\<open>addBid\<close> is not called for the bid, every config
  is passed to \<^verbatim>\<open>addPaapiConfig\<close>, and \<^verbatim>\<open>done\<close> is called once.
\<close>

theorem null_then_never_calls_addBid:
  assumes ic: "intercept rs bids bidRequest = Inr out"
    and batch: "(if nullish bids then get_prop bidRequest ''bids'' else Inr bids) = Inr (Arr bs)"
    and mem: "bid \<in> set bs"
    and mt: "match rs bid [bidRequest] = Inr (Some r)"
    and rl: "rule E ruleDef ruleNo = Inr (lg, r)"
    and nl: "own_prop ruleDef ''then'' = Null"
  shows "\<exists>g cfgs delay.
      paapi r = Some g \<and> g [bid, bidRequest] = Inr cfgs
      \<and> (delay, Deliver Null bid cfgs (ret_bidRequest out)) \<in> set (timers out)
      \<and> (\<forall>st. events (fire (Deliver Null bid cfgs (ret_bidRequest out)) st)
                 = events st @ map (\<lambda>cfg. AddPaapiConfig cfg bid (ret_bidRequest out)) cfgs
                   @ (if remaining st = 1 then [Done] else [])
               \<and> remaining (fire (Deliver Null bid cfgs (ret_bidRequest out)) st)
                 = remaining st - 1)
      \<and> (\<forall>order. mset order = mset (map snd (timers out)) \<longrightarrow>
            (\<forall>x. AddBid x bid \<notin> set (events (run order (start out))))
            \<and> (\<forall>cfg\<in>set cfgs.
                  AddPaapiConfig cfg bid (ret_bidRequest out) \<in> set (events (run order (start out))))
            \<and> count_list (events (run order (start out))) Done = 1)"
proof -
  let ?br' = "ret_bidRequest out"
  let ?F = "\<lambda>(entry, delay, mockResponse, bid, mockPaapi).
              (delay, Deliver mockResponse bid mockPaapi ?br')"
  from intercept_matchAll [OF ic batch] obtain ms rem where
    ma: "matchAll rs bs bidRequest = Inr (ms, rem)" by auto
  have inms: "(r, bid) \<in> set ms" by (rule matchAll_member [OF ma mem mt])
  then have ne: "ms \<noteq> []" by auto
  from intercept_with_matches [OF ic batch ma ne] obtain ss where
    sa: "schedule_all bidRequest ms = Inr ss" and
    tm: "timers out = map ?F ss" and
    n: "numRequiredCalls out = length ms" and
    cl: "called out = []"
    by auto
  have null: "replace r bid [bidRequest] = Inr Null"
    by (rule null_then_replace [OF rl nl])
  from schedule_all_member [OF sa inms] obtain s where
    s: "s \<in> set ss" and sm: "schedule_match bidRequest (r, bid) = Inr s" by auto
  obtain entry delay resp bid' cfgs where sq: "s = (entry, delay, resp, bid', cfgs)"
    by (cases s) auto
  from schedule_match_parts [OF sm [unfolded sq]] null obtain g where
    b: "bid' = bid" and rs: "resp = Null" and
    g: "paapi r = Some g" "g [bid, bidRequest] = Inr cfgs"
    by auto
  have intm: "(delay, Deliver Null bid cfgs ?br') \<in> set (timers out)"
  proof -
    have "?F s \<in> set (map ?F ss)" using s by (rule imageI [of s "set ss" ?F, folded set_map])
    then show ?thesis by (simp add: tm sq b rs)
  qed
  have dl: "\<forall>t\<in>set (map snd (timers out)). is_delivery t"
    by (auto simp: tm)
  have len: "length (timers out) = length ms" using schedule_all_length [OF sa] tm by simp
  have noadd: "Deliver x bid p q \<notin> set (map snd (timers out)) \<or> \<not> truthy x" for x p q
  proof (cases "Deliver x bid p q \<in> set (map snd (timers out))")
    case False
    then show ?thesis by simp
  next
    case True
    then obtain e d where s': "(e, d, x, bid, p) \<in> set ss"
      by (auto simp: tm)
    from schedule_all_origin [OF sa s'] obtain m where
      m: "m \<in> set ms" and sm': "schedule_match bidRequest m = Inr (e, d, x, bid, p)" by auto
    obtain r' b' where mq: "m = (r', b')" by (cases m)
    from schedule_match_parts [OF sm' [unfolded mq]] have
      bb: "b' = bid" and rp: "replace r' bid [bidRequest] = Inr x" by auto
    from matchAll_filter [OF ma] m mq bb have "match rs bid [bidRequest] = Inr (Some r')"
      by auto
    with mt have "r' = r" by simp
    with rp null have "x = Null" by simp
    then show ?thesis by simp
  qed
  have runs: "(\<forall>x. AddBid x bid \<notin> set (events (run order (start out))))
            \<and> (\<forall>cfg\<in>set cfgs.
                  AddPaapiConfig cfg bid ?br' \<in> set (events (run order (start out))))
            \<and> count_list (events (run order (start out))) Done = 1"
    if perm: "mset order = mset (map snd (timers out))" for order
  proof -
    have so: "set order = set (map snd (timers out))"
      using perm by (metis set_mset_mset)
    have lo: "length order = length ms"
      using perm len by (metis length_map size_mset)
    have d: "\<forall>t\<in>set order. is_delivery t" using dl so by simp
    have one: "order \<noteq> []" using lo ne by auto
    have rem: "remaining (start out) = int (length order)"
      by (simp add: start_def n lo)
    have ev: "events (run order (start out)) = concat (map task_effects order) @ [Done]"
      using run_deliveries_complete [OF d one rem] by (simp add: start_def cl)
    have 1: "AddBid x bid \<notin> set (events (run order (start out)))" for x
    proof
      assume "AddBid x bid \<in> set (events (run order (start out)))"
      then have "AddBid x bid \<in> set (concat (map task_effects order))"
        by (simp add: ev)
      from AddBid_in_effects [OF this] obtain p q where
        "Deliver x bid p q \<in> set order" "truthy x" by auto
      with noadd [of x p q] so show False by simp
    qed
    have "Deliver Null bid cfgs ?br' \<in> set order"
      using intm so by force
    then have 2: "\<forall>cfg\<in>set cfgs. AddPaapiConfig cfg bid ?br' \<in> set (events (run order (start out)))"
      by (force simp: ev delivery_events_def)
    have 3: "count_list (events (run order (start out))) Done = 1"
      using task_effects_no_Done [of order] by (simp add: ev count_list_0_iff)
    from 1 2 3 show ?thesis by simp
  qed
  show ?thesis
    using g intm fire_null_delivery runs by (intro exI [of _ g] exI [of _ cfgs] exI [of _ delay]) simp
qed

lemma null_then_eval:
  "\<exists>lg r out. rule env0
      (Obj [(''when'', Obj []), (''then'', Null),
            (''paapi'', Arr [Obj [(''seller'', Str ''x'')]])]) 1 = Inr (lg, r)
     \<and> match [r] (Obj [(''bidId'', Str ''1'')]) [Obj []] = Inr (Some r)
     \<and> intercept [r] (Arr [Obj [(''bidId'', Str ''1'')]]) (Obj []) = Inr out
     \<and> timers out =
          [(Num 0, Deliver Null (Obj [(''bidId'', Str ''1'')])
                     [Obj [(''config'', Obj [(''seller'', Str ''x'')])]]
                     (Obj [(''bids'', Arr [])]))]
     \<and> events (run (map snd (timers out)) (start out))
         = [AddPaapiConfig (Obj [(''config'', Obj [(''seller'', Str ''x'')])])
              (Obj [(''bidId'', Str ''1'')]) (Obj [(''bids'', Arr [])]), Done]"
  by (simp add: compile_defs intercept_defs wrap_config_def object_keys_def Let_def
        start_def callDone_def delivery_events_def)

theorem null_then_never_calls_addBid_witness:
  "\<exists>lg r out. rule env0
      (Obj [(''when'', Obj []), (''then'', Null),
            (''paapi'', Arr [Obj [(''seller'', Str ''x'')]])]) 1 = Inr (lg, r)
     \<and> intercept [r] (Arr [Obj [(''bidId'', Str ''1'')]]) (Obj []) = Inr out
     \<and> timers out =
          [(Num 0, Deliver Null (Obj [(''bidId'', Str ''1'')])
                     [Obj [(''config'', Obj [(''seller'', Str ''x'')])]]
                     (Obj [(''bids'', Arr [])]))]
     \<and> events (run (map snd (timers out)) (start out))
         = [AddPaapiConfig (Obj [(''config'', Obj [(''seller'', Str ''x'')])])
              (Obj [(''bidId'', Str ''1'')]) (Obj [(''bids'', Arr [])]), Done]
     \<and> (\<forall>x. AddBid x (Obj [(''bidId'', Str ''1'')])
              \<notin> set (events (run (map snd (timers out)) (start out))))"
proof -
  let ?def = "Obj [(''when'', Obj []), (''then'', Null),
                   (''paapi'', Arr [Obj [(''seller'', Str ''x'')]])]"
  let ?bid = "Obj [(''bidId'', Str ''1'')]"
  from null_then_eval obtain lg r out where
    r: "rule env0 ?def 1 = Inr (lg, r)" and
    m: "match [r] ?bid [Obj []] = Inr (Some r)" and
    ic: "intercept [r] (Arr [?bid]) (Obj []) = Inr out" and
    tm: "timers out = [(Num 0, Deliver Null ?bid [Obj [(''config'', Obj [(''seller'', Str ''x'')])]]
                          (Obj [(''bids'', Arr [])]))]" and
    ev: "events (run (map snd (timers out)) (start out))
         = [AddPaapiConfig (Obj [(''config'', Obj [(''seller'', Str ''x'')])]) ?bid
              (Obj [(''bids'', Arr [])]), Done]"
    by auto
  have batch: "(if nullish (Arr [?bid]) then get_prop (Obj []) ''bids'' else Inr (Arr [?bid]))
               = Inr (Arr [?bid])"
    by simp
  have mem: "?bid \<in> set [?bid]" by simp
  have nl: "own_prop ?def ''then'' = Null" by (simp add: own_prop_Obj)
  from null_then_never_calls_addBid [OF ic batch mem m r nl]
  have "\<forall>order. mset order = mset (map snd (timers out)) \<longrightarrow>
          (\<forall>x. AddBid x ?bid \<notin> set (events (run order (start out))))"
    by auto
  then have "\<forall>x. AddBid x ?bid \<notin> set (events (run (map snd (timers out)) (start out)))"
    by simp
  with r ic tm ev show ?thesis by auto
qed

section \<open>Merging the override into the defaults\<close>

lemma map_of_obj_set:
  "map_of (obj_set kvs k v) k' = (if k' = k then Some v else map_of kvs k')"
  by (induction kvs) auto

lemma merge_props_other:
  "k \<notin> fst ` set ov \<Longrightarrow> map_of (merge_props base ov) k = map_of base k"
  by (induction ov arbitrary: base) (auto simp: map_of_obj_set)

lemma merge_props_keeps_keys:
  "map_of base k \<noteq> None \<Longrightarrow> map_of (merge_props base ov) k \<noteq> None"
  by (induction ov arbitrary: base) (auto simp: map_of_obj_set)

lemma merge_props_scalar:
  "distinct (map fst ov) \<Longrightarrow> map_of ov k = Some v \<Longrightarrow> \<forall>src. v \<noteq> Obj src \<Longrightarrow>
   map_of (merge_props base ov) k = Some v"
proof (induction ov arbitrary: base)
  case Nil
  then show ?case by simp
next
  case (Cons kv ov)
  obtain k' v' where kv: "kv = (k', v')" by (cases kv)
  show ?case
  proof (cases "k' = k")
    case True
    with Cons.prems kv have v: "v' = v" and notin: "k \<notin> fst ` set ov" by auto
    from Cons.prems(3) v have "(case v' of Obj src \<Rightarrow> (case map_of base k of
          Some (Obj b) \<Rightarrow> Obj (merge_props b src) | _ \<Rightarrow> v') | _ \<Rightarrow> v') = v"
      by (cases v) auto
    with True kv notin show ?thesis
      by (simp add: merge_props_other map_of_obj_set)
  next
    case False
    with Cons.prems kv have "distinct (map fst ov)" "map_of ov k = Some v" by auto
    from Cons.IH [OF this Cons.prems(3)] kv show ?thesis by simp
  qed
qed

lemma merge_props_nested:
  "distinct (map fst ov) \<Longrightarrow> map_of ov k = Some (Obj src) \<Longrightarrow> map_of base k = Some (Obj b) \<Longrightarrow>
   map_of (merge_props base ov) k = Some (Obj (merge_props b src))"
proof (induction ov arbitrary: base)
  case Nil
  then show ?case by simp
next
  case (Cons kv ov)
  obtain k' v' where kv: "kv = (k', v')" by (cases kv)
  show ?case
  proof (cases "k' = k")
    case True
    with Cons.prems kv have v: "v' = Obj src" and notin: "k \<notin> fst ` set ov" by auto
    with True kv Cons.prems(3) show ?thesis
      by (simp add: merge_props_other map_of_obj_set)
  next
    case False
    with Cons.prems kv have d: "distinct (map fst ov)" and m: "map_of ov k = Some (Obj src)"
      by auto
    have "map_of (obj_set base k' (case v' of Obj src' \<Rightarrow> (case map_of base k' of
          Some (Obj b') \<Rightarrow> Obj (merge_props b' src') | _ \<Rightarrow> v') | _ \<Rightarrow> v')) k = Some (Obj b)"
      using False Cons.prems(3) by (simp add: map_of_obj_set)
    from Cons.IH [OF d m this] kv show ?thesis by simp
  qed
qed

lemma responseDefaults_no_isDebug:
  "responseDefaults bid = Inr defaults \<Longrightarrow> map_of defaults ''isDebug'' = None"
  by (auto simp: responseDefaults_def Let_def map_of_obj_set split: sum.splits if_splits)

lemma responseDefaults_requestId:
  "responseDefaults bid = Inr defaults \<Longrightarrow> map_of defaults ''requestId'' \<noteq> None"
  by (auto simp: responseDefaults_def Let_def map_of_obj_set split: sum.splits if_splits)

lemma responseDefaults_size:
  "responseDefaults bid = Inr defaults \<Longrightarrow> \<not> truthy (own_prop bid ''mediaType'') \<Longrightarrow>
   is_array (default_size bid (inferred_mediaType bid)) \<Longrightarrow>
   map_of defaults ''width'' \<noteq> None \<and> map_of defaults ''height'' \<noteq> None"
  by (auto simp: responseDefaults_def Let_def map_of_obj_set own_prop_Obj split: sum.splits)

lemma responseDefaults_total:
  "\<not> nullish bid \<Longrightarrow> \<exists>defaults. responseDefaults bid = Inr defaults"
  by (simp add: responseDefaults_def get_prop_def Let_def)

lemma replacer_respond:
  "replDef \<noteq> Null \<Longrightarrow>
   snd (replacer E replDef ruleNo)
   = respond E (replFn_of E (if truthy replDef then replDef else Obj []))"
  by (simp add: replacer_def Let_def)

lemma respond_resolved:
  assumes "responseDefaults bid = Inr defaults" and "replFn' (bid # args) = Inr override"
    and "keeps_fields E bid"
  shows "\<exists>response. respond E replFn' bid args = Inr (Obj response)
           \<and> map_of response ''isDebug'' = Some (Bool True)
           \<and> (\<forall>k v. k \<noteq> ''isDebug'' \<longrightarrow> map_of (mergeDeep defaults override) k = Some v
                 \<longrightarrow> map_of response k = Some v)
           \<and> (resolvers E (own_prop (Obj (mergeDeep defaults override)) ''mediaType'') = None
                 \<longrightarrow> response = obj_set (mergeDeep defaults override) ''isDebug'' (Bool True))"
proof (cases "resolvers E (own_prop (Obj (mergeDeep defaults override)) ''mediaType'')")
  case None
  with assms(1,2) show ?thesis
    by (simp add: respond_def Let_def map_of_obj_set)
next
  case (Some f)
  with assms(3) obtain response' where
    f: "f bid (mergeDeep defaults override) = Inr response'" and
    keep: "\<forall>k v. map_of (mergeDeep defaults override) k = Some v \<longrightarrow> map_of response' k = Some v"
    unfolding keeps_fields_def by blast
  with assms(1,2) Some show ?thesis
    by (simp add: respond_def Let_def map_of_obj_set)
qed

text \<open>
  C7. For a definition that is not null whose template evaluates to an object, and
  resolvers that keep the fields they are given, the response is the defaults merged
  with the override, then resolved and marked: a default field with a scalar override
  has the override's value, a default object with an object override is merged field
  by field, and a default field the override does not mention keeps its value. With
  no resolver registered the response is exactly the merge with \<^verbatim>\<open>isDebug\<close> set.
\<close>

theorem replacer_merge_precedence:
  assumes "replDef \<noteq> Null"
    and "responseDefaults bid = Inr defaults"
    and "replFn_of E (if truthy replDef then replDef else Obj []) (bid # args) = Inr (Obj ov)"
    and "distinct (map fst ov)"
    and "keeps_fields E bid"
  shows "\<exists>response. snd (replacer E replDef ruleNo) bid args = Inr (Obj response)
           \<and> (\<forall>k v. map_of defaults k \<noteq> None \<and> map_of ov k = Some v \<and> (\<forall>src. v \<noteq> Obj src)
                 \<longrightarrow> map_of response k = Some v)
           \<and> (\<forall>k b src. map_of defaults k = Some (Obj b) \<and> map_of ov k = Some (Obj src)
                 \<longrightarrow> map_of response k = Some (Obj (merge_props b src)))
           \<and> (\<forall>k v. map_of defaults k = Some v \<and> map_of ov k = None
                 \<longrightarrow> map_of response k = Some v)
           \<and> (resolvers E (own_prop (Obj (mergeDeep defaults (Obj ov))) ''mediaType'') = None
                 \<longrightarrow> response = obj_set (mergeDeep defaults (Obj ov)) ''isDebug'' (Bool True))"
proof -
  from respond_resolved
         [where replFn' = "replFn_of E (if truthy replDef then replDef else Obj [])",
          OF assms(2,3,5)]
  obtain response where
    p: "respond E (replFn_of E (if truthy replDef then replDef else Obj [])) bid args
          = Inr (Obj response)
        \<and> map_of response ''isDebug'' = Some (Bool True)
        \<and> (\<forall>k v. k \<noteq> ''isDebug'' \<longrightarrow> map_of (mergeDeep defaults (Obj ov)) k = Some v
             \<longrightarrow> map_of response k = Some v)
        \<and> (resolvers E (own_prop (Obj (mergeDeep defaults (Obj ov))) ''mediaType'') = None
             \<longrightarrow> response = obj_set (mergeDeep defaults (Obj ov)) ''isDebug'' (Bool True))" ..
  from p have r: "respond E (replFn_of E (if truthy replDef then replDef else Obj [])) bid args
          = Inr (Obj response)"
    by (rule conjunct1)
  from p have keep: "\<forall>k v. k \<noteq> ''isDebug'' \<longrightarrow> map_of (mergeDeep defaults (Obj ov)) k = Some v
             \<longrightarrow> map_of response k = Some v"
    by (elim conjE)
  from p have plain: "resolvers E (own_prop (Obj (mergeDeep defaults (Obj ov))) ''mediaType'') = None
             \<longrightarrow> response = obj_set (mergeDeep defaults (Obj ov)) ''isDebug'' (Bool True)"
    by (elim conjE)
  have md: "mergeDeep defaults (Obj ov) = merge_props defaults ov"
    by (simp add: mergeDeep_def)
  have keep': "map_of response k = Some v"
    if "map_of (merge_props defaults ov) k = Some v" "map_of defaults k \<noteq> None" for k v
  proof -
    from that(2) responseDefaults_no_isDebug [OF assms(2)] have "k \<noteq> ''isDebug''" by auto
    moreover from that(1) have "map_of (mergeDeep defaults (Obj ov)) k = Some v"
      by (simp only: md)
    ultimately show ?thesis using keep [rule_format, of k v] by simp
  qed
  have 1: "\<forall>k v. map_of defaults k \<noteq> None \<and> map_of ov k = Some v \<and> (\<forall>src. v \<noteq> Obj src)
                 \<longrightarrow> map_of response k = Some v"
  proof (intro allI impI)
    fix k v
    assume h: "map_of defaults k \<noteq> None \<and> map_of ov k = Some v \<and> (\<forall>src. v \<noteq> Obj src)"
    then have "map_of (merge_props defaults ov) k = Some v"
      using merge_props_scalar [OF assms(4), of k v defaults] by simp
    moreover from h have "map_of defaults k \<noteq> None" by (rule conjunct1)
    ultimately show "map_of response k = Some v" by (rule keep')
  qed
  have 2: "\<forall>k b src. map_of defaults k = Some (Obj b) \<and> map_of ov k = Some (Obj src)
                 \<longrightarrow> map_of response k = Some (Obj (merge_props b src))"
  proof (intro allI impI)
    fix k b src
    assume h: "map_of defaults k = Some (Obj b) \<and> map_of ov k = Some (Obj src)"
    then have "map_of (merge_props defaults ov) k = Some (Obj (merge_props b src))"
      using merge_props_nested [OF assms(4), of k src defaults b] by simp
    moreover from h have "map_of defaults k \<noteq> None" by simp
    ultimately show "map_of response k = Some (Obj (merge_props b src))" by (rule keep')
  qed
  have 3: "\<forall>k v. map_of defaults k = Some v \<and> map_of ov k = None
                 \<longrightarrow> map_of response k = Some v"
  proof (intro allI impI)
    fix k v
    assume h: "map_of defaults k = Some v \<and> map_of ov k = None"
    then have "k \<notin> fst ` set ov" by (simp add: map_of_eq_None_iff)
    then have "map_of (merge_props defaults ov) k = Some v"
      using h by (simp add: merge_props_other)
    moreover from h have "map_of defaults k \<noteq> None" by simp
    ultimately show "map_of response k = Some v" by (rule keep')
  qed
  have r': "snd (replacer E replDef ruleNo) bid args = Inr (Obj response)"
    using r by (simp only: replacer_respond [OF assms(1)])
  show ?thesis
    by (rule exI [of _ response]) (intro conjI r' 1 2 3 plain)
qed

lemma defaults_plain_bid:
  "responseDefaults (Obj [(''bidId'', Str ''1'')])
   = Inr [(''requestId'', Str ''1''), (''cpm'', Num 3.5764), (''currency'', Str ''EUR''),
          (''ttl'', Num 360), (''creativeId'', Str ''mock-creative-id''),
          (''netRevenue'', Bool False), (''meta'', Obj []), (''mediaType'', Str ''banner''),
          (''width'', Num 300), (''height'', Num 250)]"
  by (simp add: compile_defs respond_defs Let_def)

theorem replacer_merge_precedence_witness:
  "\<exists>response. snd (replacer env0 (Obj [(''cpm'', Fn 0)]) 1) (Obj [(''bidId'', Str ''1'')]) []
       = Inr (Obj response)
     \<and> map_of response ''cpm'' = Some (Num 9.99)
     \<and> map_of response ''width'' = Some (Num 300)
     \<and> map_of response ''height'' = Some (Num 250)"
proof -
  let ?bid = "Obj [(''bidId'', Str ''1'')]"
  let ?def = "Obj [(''cpm'', Fn 0)]"
  let ?defaults = "[(''requestId'', Str ''1''), (''cpm'', Num 3.5764), (''currency'', Str ''EUR''),
          (''ttl'', Num 360), (''creativeId'', Str ''mock-creative-id''),
          (''netRevenue'', Bool False), (''meta'', Obj []), (''mediaType'', Str ''banner''),
          (''width'', Num 300), (''height'', Num 250)]"
  let ?ov = "[(''cpm'', Num 9.99)]"
  have 1: "?def \<noteq> Null" by simp
  have 3: "replFn_of env0 (if truthy ?def then ?def else Obj []) (?bid # []) = Inr (Obj ?ov)"
    by (simp add: replFn_of_def replFn_def env0_def)
  have 4: "distinct (map fst ?ov)" by simp
  have 5: "keeps_fields env0 ?bid" by (simp add: keeps_fields_def env0_def)
  from replacer_merge_precedence [OF 1 defaults_plain_bid 3 4 5, of 1]
  obtain response where
    p: "snd (replacer env0 ?def 1) ?bid [] = Inr (Obj response)
        \<and> (\<forall>k v. map_of ?defaults k \<noteq> None \<and> map_of ?ov k = Some v \<and> (\<forall>src. v \<noteq> Obj src)
                 \<longrightarrow> map_of response k = Some v)
        \<and> (\<forall>k b src. map_of ?defaults k = Some (Obj b) \<and> map_of ?ov k = Some (Obj src)
                 \<longrightarrow> map_of response k = Some (Obj (merge_props b src)))
        \<and> (\<forall>k v. map_of ?defaults k = Some v \<and> map_of ?ov k = None
                 \<longrightarrow> map_of response k = Some v)
        \<and> (resolvers env0 (own_prop (Obj (mergeDeep ?defaults (Obj ?ov))) ''mediaType'') = None
                 \<longrightarrow> response = obj_set (mergeDeep ?defaults (Obj ?ov)) ''isDebug'' (Bool True))" ..
  from p have r: "snd (replacer env0 ?def 1) ?bid [] = Inr (Obj response)"
    by (rule conjunct1)
  from p have a: "\<forall>k v. map_of ?defaults k \<noteq> None \<and> map_of ?ov k = Some v \<and> (\<forall>src. v \<noteq> Obj src)
                 \<longrightarrow> map_of response k = Some v"
    by (elim conjE)
  from p have b: "\<forall>k v. map_of ?defaults k = Some v \<and> map_of ?ov k = None
                 \<longrightarrow> map_of response k = Some v"
    by (elim conjE)
  from a [rule_format, of "''cpm''" "Num 9.99"] have c: "map_of response ''cpm'' = Some (Num 9.99)"
    by simp
  from b [rule_format, of "''width''" "Num 300"]
  have w: "map_of response ''width'' = Some (Num 300)" by simp
  from b [rule_format, of "''height''" "Num 250"]
  have h: "map_of response ''height'' = Some (Num 250)" by simp
  show ?thesis
    by (rule exI [of _ response]) (intro conjI r c w h)
qed

section \<open>The fields of a response\<close>

text \<open>
  C1, amended. The generator of a null definition returns null. For any other
  definition, a bid that is neither null nor undefined, a template that evaluates, and
  resolvers that keep fields, it returns a response object with \<^verbatim>\<open>requestId\<close> and
  \<^verbatim>\<open>isDebug\<close>; the response has \<^verbatim>\<open>width\<close> and \<^verbatim>\<open>height\<close> when the bid has no
  \<^verbatim>\<open>mediaType\<close> and the size resolved for its inferred media type is an array.
\<close>

theorem replacer_response_fields:
  "snd (replacer E Null ruleNo) bid args = Inr Null
   \<and> (replDef \<noteq> Null \<and> \<not> nullish bid
        \<and> replFn_of E (if truthy replDef then replDef else Obj []) (bid # args) = Inr override
        \<and> keeps_fields E bid \<longrightarrow>
      (\<exists>response. snd (replacer E replDef ruleNo) bid args = Inr (Obj response)
         \<and> map_of response ''requestId'' \<noteq> None
         \<and> map_of response ''isDebug'' = Some (Bool True)
         \<and> (\<not> truthy (own_prop bid ''mediaType'')
              \<and> is_array (default_size bid (inferred_mediaType bid)) \<longrightarrow>
             map_of response ''width'' \<noteq> None \<and> map_of response ''height'' \<noteq> None)))"
proof (intro conjI impI)
  show "snd (replacer E Null ruleNo) bid args = Inr Null"
    by (simp add: replacer_def)
next
  assume a: "replDef \<noteq> Null \<and> \<not> nullish bid
        \<and> replFn_of E (if truthy replDef then replDef else Obj []) (bid # args) = Inr override
        \<and> keeps_fields E bid"
  from a have a1: "replDef \<noteq> Null" by (rule conjunct1)
  from a have a2: "\<not> nullish bid" by (elim conjE)
  from a have a3: "replFn_of E (if truthy replDef then replDef else Obj []) (bid # args)
                   = Inr override"
    by (elim conjE)
  from a have a4: "keeps_fields E bid" by (elim conjE)
  from responseDefaults_total [OF a2] obtain defaults where
    d: "responseDefaults bid = Inr defaults" ..
  from respond_resolved
         [where replFn' = "replFn_of E (if truthy replDef then replDef else Obj [])",
          OF d a3 a4]
  obtain response where
    p: "respond E (replFn_of E (if truthy replDef then replDef else Obj [])) bid args
          = Inr (Obj response)
        \<and> map_of response ''isDebug'' = Some (Bool True)
        \<and> (\<forall>k v. k \<noteq> ''isDebug'' \<longrightarrow> map_of (mergeDeep defaults override) k = Some v
             \<longrightarrow> map_of response k = Some v)
        \<and> (resolvers E (own_prop (Obj (mergeDeep defaults override)) ''mediaType'') = None
             \<longrightarrow> response = obj_set (mergeDeep defaults override) ''isDebug'' (Bool True))" ..
  from p have r: "respond E (replFn_of E (if truthy replDef then replDef else Obj [])) bid args
          = Inr (Obj response)"
    by (rule conjunct1)
  from p have dbg: "map_of response ''isDebug'' = Some (Bool True)"
    by (elim conjE)
  from p have keep: "\<forall>k v. k \<noteq> ''isDebug'' \<longrightarrow> map_of (mergeDeep defaults override) k = Some v
             \<longrightarrow> map_of response k = Some v"
    by (elim conjE)
  have kept: "map_of response k \<noteq> None" if "map_of defaults k \<noteq> None" "k \<noteq> ''isDebug''" for k
  proof -
    have "map_of (mergeDeep defaults override) k \<noteq> None"
      using that(1) by (cases override) (simp_all add: mergeDeep_def merge_props_keeps_keys)
    then obtain v where "map_of (mergeDeep defaults override) k = Some v" by auto
    with keep [rule_format, of k v] that(2) show ?thesis by simp
  qed
  have rid: "map_of response ''requestId'' \<noteq> None"
    using kept [of "''requestId''"] responseDefaults_requestId [OF d] by simp
  have sz: "\<not> truthy (own_prop bid ''mediaType'')
              \<and> is_array (default_size bid (inferred_mediaType bid)) \<longrightarrow>
             map_of response ''width'' \<noteq> None \<and> map_of response ''height'' \<noteq> None"
  proof
    assume s: "\<not> truthy (own_prop bid ''mediaType'')
              \<and> is_array (default_size bid (inferred_mediaType bid))"
    from responseDefaults_size [OF d] s
    have "map_of defaults ''width'' \<noteq> None \<and> map_of defaults ''height'' \<noteq> None" by simp
    then show "map_of response ''width'' \<noteq> None \<and> map_of response ''height'' \<noteq> None"
      using kept [of "''width''"] kept [of "''height''"] by simp
  qed
  have r': "snd (replacer E replDef ruleNo) bid args = Inr (Obj response)"
    using r by (simp only: replacer_respond [OF a1])
  show "\<exists>response. snd (replacer E replDef ruleNo) bid args = Inr (Obj response)
         \<and> map_of response ''requestId'' \<noteq> None
         \<and> map_of response ''isDebug'' = Some (Bool True)
         \<and> (\<not> truthy (own_prop bid ''mediaType'')
              \<and> is_array (default_size bid (inferred_mediaType bid)) \<longrightarrow>
             map_of response ''width'' \<noteq> None \<and> map_of response ''height'' \<noteq> None)"
    by (rule exI [of _ response]) (intro conjI r' rid dbg sz)
qed

theorem replacer_response_fields_witness:
  "\<exists>response. snd (replacer env0 (Obj [(''cpm'', Num 1)]) 1)
       (Obj [(''bidId'', Str ''1''), (''mediaTypes'', Obj [(''video'', Obj [])])]) []
       = Inr (Obj response)
     \<and> map_of response ''requestId'' \<noteq> None
     \<and> map_of response ''isDebug'' = Some (Bool True)
     \<and> map_of response ''width'' \<noteq> None \<and> map_of response ''height'' \<noteq> None"
proof -
  let ?bid = "Obj [(''bidId'', Str ''1''), (''mediaTypes'', Obj [(''video'', Obj [])])]"
  let ?def = "Obj [(''cpm'', Num 1)]"
  have h: "?def \<noteq> Null \<and> \<not> nullish ?bid
        \<and> replFn_of env0 (if truthy ?def then ?def else Obj []) (?bid # [])
            = Inr (Obj [(''cpm'', Num 1)])
        \<and> keeps_fields env0 ?bid"
    by (simp add: replFn_of_def replFn_def keeps_fields_def env0_def)
  have s: "\<not> truthy (own_prop ?bid ''mediaType'')
           \<and> is_array (default_size ?bid (inferred_mediaType ?bid))"
    by (simp add: compile_defs respond_defs)
  from replacer_response_fields [of env0 1 ?bid "[]" ?def "Obj [(''cpm'', Num 1)]"]
  have "?def \<noteq> Null \<and> \<not> nullish ?bid
        \<and> replFn_of env0 (if truthy ?def then ?def else Obj []) (?bid # [])
            = Inr (Obj [(''cpm'', Num 1)])
        \<and> keeps_fields env0 ?bid \<longrightarrow>
      (\<exists>response. snd (replacer env0 ?def 1) ?bid [] = Inr (Obj response)
         \<and> map_of response ''requestId'' \<noteq> None
         \<and> map_of response ''isDebug'' = Some (Bool True)
         \<and> (\<not> truthy (own_prop ?bid ''mediaType'')
              \<and> is_array (default_size ?bid (inferred_mediaType ?bid)) \<longrightarrow>
             map_of response ''width'' \<noteq> None \<and> map_of response ''height'' \<noteq> None))"
    by (rule conjunct2)
  from this h obtain response where
    p: "snd (replacer env0 ?def 1) ?bid [] = Inr (Obj response)
         \<and> map_of response ''requestId'' \<noteq> None
         \<and> map_of response ''isDebug'' = Some (Bool True)
         \<and> (\<not> truthy (own_prop ?bid ''mediaType'')
              \<and> is_array (default_size ?bid (inferred_mediaType ?bid)) \<longrightarrow>
             map_of response ''width'' \<noteq> None \<and> map_of response ''height'' \<noteq> None)"
    by (elim impE exE) assumption
  from p have 1: "snd (replacer env0 ?def 1) ?bid [] = Inr (Obj response)" by (rule conjunct1)
  from p have 2: "map_of response ''requestId'' \<noteq> None" by (elim conjE)
  from p have 3: "map_of response ''isDebug'' = Some (Bool True)" by (elim conjE)
  from p have "\<not> truthy (own_prop ?bid ''mediaType'')
              \<and> is_array (default_size ?bid (inferred_mediaType ?bid)) \<longrightarrow>
             map_of response ''width'' \<noteq> None \<and> map_of response ''height'' \<noteq> None"
    by (elim conjE)
  from this s have 4: "map_of response ''width'' \<noteq> None \<and> map_of response ''height'' \<noteq> None"
    by (rule mp)
  show ?thesis
    by (rule exI [of _ response]) (intro conjI 1 2 3 4 [THEN conjunct1] 4 [THEN conjunct2])
qed

text \<open>
  C1 as stated fails. A bid that declares the native media type first gets a response
  of that media type, for which no size is resolved; and for a bid whose
  \<^verbatim>\<open>mediaType\<close> is already set the response gets no \<^verbatim>\<open>mediaType\<close> and so no size
  either. Both responses have neither \<^verbatim>\<open>width\<close> nor \<^verbatim>\<open>height\<close>.
\<close>

theorem replacer_response_without_size:
  "snd (replacer env0 (Obj []) 1)
     (Obj [(''bidId'', Str ''1''), (''mediaTypes'', Obj [(''native'', Obj [])])]) []
   = Inr (Obj [(''requestId'', Str ''1''), (''cpm'', Num 3.5764), (''currency'', Str ''EUR''),
               (''ttl'', Num 360), (''creativeId'', Str ''mock-creative-id''),
               (''netRevenue'', Bool False), (''meta'', Obj []),
               (''mediaType'', Str ''native''), (''isDebug'', Bool True)])
   \<and> snd (replacer env0 (Obj []) 1)
     (Obj [(''bidId'', Str ''1''), (''mediaType'', Str ''banner'')]) []
   = Inr (Obj [(''requestId'', Str ''1''), (''cpm'', Num 3.5764), (''currency'', Str ''EUR''),
               (''ttl'', Num 360), (''creativeId'', Str ''mock-creative-id''),
               (''netRevenue'', Bool False), (''meta'', Obj []), (''isDebug'', Bool True)])"
  by (simp add: compile_defs respond_defs Let_def)

text \<open>
  C2. Two rule lists on which \<^verbatim>\<open>intercept\<close> throws a TypeError: a rule with an
  invalid \<^verbatim>\<open>paapi\<close> (logged, but the rule is left without a generator, which
  \<^verbatim>\<open>intercept\<close> calls when the rule matches), and a rule whose \<^verbatim>\<open>when\<close> is null
  (not logged; \<^verbatim>\<open>Object.entries(null)\<close> throws when the rule is tried).
\<close>

theorem intercept_throws_on_invalid_rule:
  "(case updateConfig env0
           (Obj [(''intercept'', Arr [Obj [(''when'', Obj []), (''paapi'', Num 5)]])]) of
      Inl e \<Rightarrow> None
    | Inr (lg, rs) \<Rightarrow> Some (lg, intercept rs (Arr [Obj [(''bidId'', Str ''1'')]]) (Obj [])))
   = Some ([LogError_paapi 1], Inl TypeError)
   \<and> (case updateConfig env0 (Obj [(''intercept'', Arr [Obj [(''when'', Null)]])]) of
      Inl e \<Rightarrow> None
    | Inr (lg, rs) \<Rightarrow> Some (lg, intercept rs (Arr [Obj [(''bidId'', Str ''1'')]]) (Obj [])))
   = Some ([], Inl TypeError)"
  by (simp add: compile_defs respond_defs intercept_defs Let_def)

end
